theory Spec2Isabelle
  imports Main "HOL-Library.Sublist" "HOL-Library.Word"
begin


section \<open>Text\<close>

text \<open>
  A Python \<open>str\<close> is modelled as a \<open>string\<close>: one \<open>char\<close> per code point, for
  the code points below 256. Every literal of the script is ASCII. The three control
  characters that the script writes as \<open>\t\<close>, \<open>\n\<close> and (in replacement templates)
  the backslash have no literal syntax inside \<open>''...''\<close>, so they get names.
\<close>

abbreviation TAB :: char where "TAB \<equiv> CHR 0x09"
abbreviation NL :: char where "NL \<equiv> CHR 0x0A"
abbreviation BSL :: char where "BSL \<equiv> CHR 0x5C"

definition ascii_digit :: "char \<Rightarrow> bool" where
  "ascii_digit c \<longleftrightarrow> c \<in> set ''0123456789''"

definition oct_digit :: "char \<Rightarrow> bool" where
  "oct_digit c \<longleftrightarrow> c \<in> set ''01234567''"

definition ascii_letter :: "char \<Rightarrow> bool" where
  "ascii_letter c \<longleftrightarrow>
     c \<in> set ''abcdefghijklmnopqrstuvwxyzABCDEFGHIJKLMNOPQRSTUVWXYZ''"

definition digit_val :: "char \<Rightarrow> nat" where
  "digit_val c = of_char c - of_char CHR ''0''"

text \<open>\<open>int(name)\<close> on a string of ASCII digits, and \<open>int(name, 8)\<close> on octal digits.\<close>

definition dec_val :: "string \<Rightarrow> nat" where
  "dec_val s = foldl (\<lambda>a c. 10 * a + digit_val c) 0 s"

definition oct_val :: "string \<Rightarrow> nat" where
  "oct_val s = foldl (\<lambda>a c. 8 * a + digit_val c) 0 s"

text \<open>
  The class \<open>\s\<close> of a \<open>str\<close> pattern is \<open>str.isspace\<close>; below 256 these are the code
  points 9 to 13, 28 to 32, 133 and 160.
\<close>

definition py_space :: "char \<Rightarrow> bool" where
  "py_space c \<longleftrightarrow>
     (let n = (of_char c :: nat)
      in (9 \<le> n \<and> n \<le> 13) \<or> (28 \<le> n \<and> n \<le> 32) \<or> n = 133 \<or> n = 160)"

definition upper_hex :: "char \<Rightarrow> bool" where
  "upper_hex c \<longleftrightarrow> c \<in> set ''0123456789ABCDEF''"

text \<open>\<open>[^*]\<close> and \<open>[^)]\<close>.\<close>

definition not_star :: "char \<Rightarrow> bool" where
  "not_star c \<longleftrightarrow> c \<noteq> CHR ''*''"

definition not_rparen :: "char \<Rightarrow> bool" where
  "not_rparen c \<longleftrightarrow> c \<noteq> CHR '')''"

section \<open>The fragment of Python's \<open>re\<close> that the script uses\<close>

text \<open>
  The five patterns of the script are sequences of literal text and of repetitions of
  one character class (\<open>{24}\<close>, \<open>+\<close>, \<open>*\<close> greedy, \<open>*?\<close> lazy), and every piece lies
  inside a capture group. A pattern is therefore the list of its groups, and a group the
  list of its pieces.
\<close>

datatype rx =
    Lit string
  | Rep "char \<Rightarrow> bool" nat "nat option" bool
      \<comment> \<open>class, least count, greatest count (\<open>None\<close>: unbounded), greedy\<close>

type_synonym pattern = "rx list list"

text \<open>
  The counts a repetition tries, in the order a backtracking matcher tries them: a greedy
  one from the longest run down, a lazy one from the shortest up.
\<close>

definition counts :: "(char \<Rightarrow> bool) \<Rightarrow> nat \<Rightarrow> nat option \<Rightarrow> bool \<Rightarrow> string \<Rightarrow> nat list" where
  "counts cls lo hi greedy s =
     (let avail = length (takeWhile cls s);
          top = (case hi of None \<Rightarrow> avail | Some h \<Rightarrow> min h avail);
          up = [lo..<Suc top]
      in if greedy then rev up else up)"

fun first_some :: "('a \<Rightarrow> 'b option) \<Rightarrow> 'a list \<Rightarrow> 'b option" where
  "first_some f [] = None"
| "first_some f (x # xs) = (case f x of Some y \<Rightarrow> Some y | None \<Rightarrow> first_some f xs)"

text \<open>
  \<open>rx_match rs s\<close> matches the pieces \<open>rs\<close> at the start of \<open>s\<close> and returns how many
  characters each piece took, or \<open>None\<close> when no choice of counts lets all of them match.
\<close>

primrec rx_match :: "rx list \<Rightarrow> string \<Rightarrow> nat list option" where
  "rx_match [] s = Some []"
| "rx_match (r # rs) s =
     (case r of
        Lit l \<Rightarrow>
          if prefix l s then map_option ((#) (length l)) (rx_match rs (drop (length l) s))
          else None
      | Rep cls lo hi greedy \<Rightarrow>
          first_some (\<lambda>n. map_option ((#) n) (rx_match rs (drop n s)))
            (counts cls lo hi greedy s))"

fun chop :: "nat list \<Rightarrow> 'a list \<Rightarrow> 'a list list" where
  "chop [] xs = []"
| "chop (k # ks) xs = take k xs # chop ks (drop k xs)"

text \<open>
  \<open>re_match p s\<close> is \<open>pattern.match\<close> at the start of \<open>s\<close>: the texts of the groups
  \<open>m.group(1)\<close>, \<open>m.group(2)\<close>, ... Their concatenation is \<open>m.group(0)\<close>.
\<close>

definition re_match :: "pattern \<Rightarrow> string \<Rightarrow> string list option" where
  "re_match p s =
     map_option (\<lambda>ns. chop (map sum_list (chop (map length p) ns)) s)
       (rx_match (concat p) s)"

text \<open>
  \<open>re.sub\<close> with no \<open>count\<close>: scan from the left; where the pattern matches, emit the
  replacement and go on behind the match; elsewhere copy one character. All
  non-overlapping matches are replaced.
\<close>

fun re_sub :: "pattern \<Rightarrow> (string list \<Rightarrow> string) \<Rightarrow> string \<Rightarrow> string" where
  "re_sub p repl [] = (case re_match p [] of None \<Rightarrow> [] | Some gs \<Rightarrow> repl gs)"
| "re_sub p repl (c # cs) =
     (case re_match p (c # cs) of
        None \<Rightarrow> c # re_sub p repl cs
      | Some gs \<Rightarrow>
          (case length (concat gs) of
             0 \<Rightarrow> repl gs @ c # re_sub p repl cs
           | Suc k \<Rightarrow> repl gs @ re_sub p repl (drop k cs)))"

subsection \<open>Replacement templates\<close>

text \<open>
  When the replacement is a string, \<open>re.sub\<close> first compiles it as a template
  (\<open>re._parser.parse_template\<close>, here as in CPython 3.12): a backslash starts an escape,
  \<open>\1\<close> stands for group 1, and a bad escape raises before any matching is done. The
  exceptions this raises (\<open>re.error\<close>, and \<open>IndexError\<close> for an unknown group name)
  are one error value, \<open>ReplacementError\<close>. The other error values name the places where
  the script's file access raises: \<open>FileNotFoundError\<close> is the \<open>raise\<close> of
  \<open>read_pbxproj\<close>, \<open>ReadError\<close> whatever \<open>read_text\<close> raises, and \<open>WriteError\<close>
  whatever \<open>write_text\<close> raises.
\<close>

datatype py_error =
    ReplacementError
  | FileNotFoundError
  | ReadError
  | WriteError

datatype tpl = TLit char | TGroup nat

text \<open>
  \<open>escape groups c rest\<close>: the escape \<open>\c\<close>, followed by \<open>rest\<close>, in a template for a
  pattern with \<open>groups\<close> groups (none of them named). It returns the template items and
  how many characters of \<open>rest\<close> belong to the escape.
\<close>

definition escape :: "nat \<Rightarrow> char \<Rightarrow> string \<Rightarrow> py_error + tpl list \<times> nat" where
  "escape groups c rest =
     (if c = CHR ''g'' then
        (case rest of
           [] \<Rightarrow> Inl ReplacementError
         | x # after \<Rightarrow>
             if x \<noteq> CHR ''<'' then Inl ReplacementError
             else
               (let name = takeWhile (\<lambda>d. d \<noteq> CHR ''>'') after
                in if length name = length after \<or> name = [] then Inl ReplacementError
                   else if list_all ascii_digit name \<and> dec_val name \<le> groups
                     then Inr ([TGroup (dec_val name)], length name + 2)
                   else Inl ReplacementError))
      else if c = CHR ''0'' then
        (let ds = takeWhile oct_digit (take 2 rest)
         in Inr ([TLit (char_of (oct_val ds mod 256))], length ds))
      else if ascii_digit c then
        (case rest of
           [] \<Rightarrow> if digit_val c \<le> groups then Inr ([TGroup (digit_val c)], 0)
                 else Inl ReplacementError
         | x # more \<Rightarrow>
             if \<not> ascii_digit x then
               (if digit_val c \<le> groups then Inr ([TGroup (digit_val c)], 0)
                else Inl ReplacementError)
             else if oct_digit c \<and> oct_digit x \<and> more \<noteq> [] \<and> oct_digit (hd more) then
               (let v = oct_val [c, x, hd more]
                in if v > 255 then Inl ReplacementError else Inr ([TLit (char_of v)], 2))
             else if dec_val [c, x] \<le> groups then Inr ([TGroup (dec_val [c, x])], 1)
             else Inl ReplacementError)
      else if c = CHR ''a'' then Inr ([TLit (CHR 0x07)], 0)
      else if c = CHR ''b'' then Inr ([TLit (CHR 0x08)], 0)
      else if c = CHR ''f'' then Inr ([TLit (CHR 0x0C)], 0)
      else if c = CHR ''n'' then Inr ([TLit NL], 0)
      else if c = CHR ''r'' then Inr ([TLit (CHR 0x0D)], 0)
      else if c = CHR ''t'' then Inr ([TLit TAB], 0)
      else if c = CHR ''v'' then Inr ([TLit (CHR 0x0B)], 0)
      else if c = BSL then Inr ([TLit BSL], 0)
      else if ascii_letter c then Inl ReplacementError
      else Inr ([TLit BSL, TLit c], 0))"

fun parse_template :: "nat \<Rightarrow> string \<Rightarrow> py_error + tpl list" where
  "parse_template groups [] = Inr []"
| "parse_template groups (c # cs) =
     (if c \<noteq> BSL then
        (case parse_template groups cs of
           Inl e \<Rightarrow> Inl e
         | Inr items \<Rightarrow> Inr (TLit c # items))
      else
        (case cs of
           [] \<Rightarrow> Inl ReplacementError
         | d # ds \<Rightarrow>
             (case escape groups d ds of
                Inl e \<Rightarrow> Inl e
              | Inr (first, k) \<Rightarrow>
                  (case parse_template groups (drop k ds) of
                     Inl e \<Rightarrow> Inl e
                   | Inr items \<Rightarrow> Inr (first @ items)))))"

text \<open>\<open>m.group(i)\<close> for a match whose groups are \<open>gs\<close>.\<close>

fun group_text :: "string list \<Rightarrow> nat \<Rightarrow> string" where
  "group_text gs 0 = concat gs"
| "group_text gs (Suc i) = (if i < length gs then gs ! i else [])"

definition expand_template :: "tpl list \<Rightarrow> string list \<Rightarrow> string" where
  "expand_template items gs =
     concat (map (\<lambda>t. case t of TLit c \<Rightarrow> [c] | TGroup i \<Rightarrow> group_text gs i) items)"

definition re_sub_template :: "pattern \<Rightarrow> string \<Rightarrow> string \<Rightarrow> py_error + string" where
  "re_sub_template p template s =
     (case parse_template (length p) template of
        Inl e \<Rightarrow> Inl e
      | Inr items \<Rightarrow> Inr (re_sub p (expand_template items) s))"

section \<open>The four editors\<close>

text \<open>
  The dictionaries \<open>file_ids\<close> and \<open>build_ids\<close> always have the two keys \<open>'plugin'\<close>
  and \<open>'service'\<close>.
\<close>

record id_pair =
  plugin :: string
  service :: string

subsection \<open>\<open>add_pbx_file_references\<close>\<close>

definition reference_plugin_entry :: "id_pair \<Rightarrow> string" where
  \<open>reference_plugin_entry file_ids =
     [TAB, TAB] @ plugin file_ids
     @ '' /* CloudKitPlugin.swift */ = {isa = PBXFileReference; lastKnownFileType = sourcecode.swift; path = CloudKitPlugin.swift; sourceTree = "<group>"; };''
     @ [NL]\<close>

definition reference_service_entry :: "id_pair \<Rightarrow> string" where
  \<open>reference_service_entry file_ids =
     [TAB, TAB] @ service file_ids
     @ '' /* CloudKitService.swift */ = {isa = PBXFileReference; lastKnownFileType = sourcecode.swift; path = CloudKitService.swift; sourceTree = "<group>"; };''
     @ [NL]\<close>

definition file_reference_pattern :: pattern where
  "file_reference_pattern = [[Lit ''/* End PBXFileReference section */'']]"

definition add_pbx_file_references :: "string \<Rightarrow> id_pair \<Rightarrow> py_error + string" where
  "add_pbx_file_references content file_ids =
     (let replacement =
            reference_plugin_entry file_ids @ reference_service_entry file_ids
            @ [BSL, CHR ''1'']
      in re_sub_template file_reference_pattern replacement content)"

subsection \<open>\<open>add_pbx_build_files\<close>\<close>

definition build_plugin_entry :: "id_pair \<Rightarrow> id_pair \<Rightarrow> string" where
  "build_plugin_entry build_ids file_ids =
     [TAB, TAB] @ plugin build_ids
     @ '' /* CloudKitPlugin.swift in Sources */ = {isa = PBXBuildFile; fileRef = ''
     @ plugin file_ids @ '' /* CloudKitPlugin.swift */; };'' @ [NL]"

definition build_service_entry :: "id_pair \<Rightarrow> id_pair \<Rightarrow> string" where
  "build_service_entry build_ids file_ids =
     [TAB, TAB] @ service build_ids
     @ '' /* CloudKitService.swift in Sources */ = {isa = PBXBuildFile; fileRef = ''
     @ service file_ids @ '' /* CloudKitService.swift */; };'' @ [NL]"

definition build_file_pattern :: pattern where
  "build_file_pattern = [[Lit ''/* End PBXBuildFile section */'']]"

definition add_pbx_build_files :: "string \<Rightarrow> id_pair \<Rightarrow> id_pair \<Rightarrow> py_error + string" where
  "add_pbx_build_files content build_ids file_ids =
     (let replacement =
            build_plugin_entry build_ids file_ids @ build_service_entry build_ids file_ids
            @ [BSL, CHR ''1'']
      in re_sub_template build_file_pattern replacement content)"

subsection \<open>\<open>add_to_runner_group\<close>\<close>

definition group_plugin_ref :: "id_pair \<Rightarrow> string" where
  "group_plugin_ref file_ids =
     [TAB, TAB, TAB, TAB] @ plugin file_ids @ '' /* CloudKitPlugin.swift */,'' @ [NL]"

definition group_service_ref :: "id_pair \<Rightarrow> string" where
  "group_service_ref file_ids =
     [TAB, TAB, TAB, TAB] @ service file_ids @ '' /* CloudKitService.swift */,'' @ [NL]"

definition runner_group_pattern :: pattern where
  "runner_group_pattern =
     [[Lit (''74858FAD1ED2DC5600515810 /* Runner-Bridging-Header.h */,'' @ [NL])],
      [Lit ([TAB, TAB, TAB] @ '');'')]]"

definition alt_pattern :: pattern where
  \<open>alt_pattern =
     [[Lit [TAB, TAB, TAB, TAB], Rep upper_hex 24 (Some 24) True, Lit '' /* '',
       Rep not_star 1 None True, Lit ('' */,'' @ [NL])],
      [Lit ([TAB, TAB, TAB] @ '');'' @ [NL]
            @ [TAB, TAB, TAB] @ ''path = Runner;'' @ [NL]
            @ [TAB, TAB, TAB] @ ''sourceTree = "<group>";'')]]\<close>

definition runner_group_replacer :: "id_pair \<Rightarrow> string list \<Rightarrow> string" where
  "runner_group_replacer file_ids m =
     (let header_line = group_text m 1;
          closing = group_text m 2
      in header_line @ group_plugin_ref file_ids @ group_service_ref file_ids @ closing)"

definition add_to_runner_group :: "string \<Rightarrow> id_pair \<Rightarrow> string" where
  "add_to_runner_group content file_ids =
     (let result = re_sub runner_group_pattern (runner_group_replacer file_ids) content
      in if result = content then
           re_sub alt_pattern
             (\<lambda>m. group_text m 1 @ group_plugin_ref file_ids @ group_service_ref file_ids
                   @ group_text m 2)
             result
         else result)"

subsection \<open>\<open>add_to_sources_build_phase\<close>\<close>

definition phase_plugin_ref :: "id_pair \<Rightarrow> string" where
  "phase_plugin_ref build_ids =
     [TAB, TAB, TAB, TAB] @ plugin build_ids @ '' /* CloudKitPlugin.swift in Sources */,''
     @ [NL]"

definition phase_service_ref :: "id_pair \<Rightarrow> string" where
  "phase_service_ref build_ids =
     [TAB, TAB, TAB, TAB] @ service build_ids @ '' /* CloudKitService.swift in Sources */,''
     @ [NL]"

text \<open>\<open>re.DOTALL\<close> changes only \<open>.\<close>, which the pattern does not use.\<close>

definition sources_phase_pattern :: pattern where
  "sources_phase_pattern =
     [[Lit ''97C146EA1CF9000F007C117D /* Sources */ = {'', Rep py_space 0 None True,
       Lit ''isa = PBXSourcesBuildPhase;'', Rep py_space 0 None True,
       Lit ''buildActionMask = 2147483647;'', Rep py_space 0 None True,
       Lit ''files = ('', Rep py_space 0 None True,
       Rep not_rparen 0 None False],
      [Lit ([TAB, TAB] @ '');'')]]"

definition sources_replacer :: "id_pair \<Rightarrow> string list \<Rightarrow> string" where
  "sources_replacer build_ids m =
     (let files_content = group_text m 1;
          closing = group_text m 2
      in files_content @ phase_plugin_ref build_ids @ phase_service_ref build_ids @ closing)"

definition add_to_sources_build_phase :: "string \<Rightarrow> id_pair \<Rightarrow> string" where
  "add_to_sources_build_phase content build_ids =
     re_sub sources_phase_pattern (sources_replacer build_ids) content"

section \<open>Effects: the random source, the file system, standard output\<close>

text \<open>
  A path is the list of its components below the root. A file that exists either holds
  text or cannot be read as text (\<open>read_text\<close> raises). The bytes that the operating
  system's random source delivers are a sequence, of which \<open>drawn\<close> have been used.
  \<open>events\<close> records what the run printed and what reached a file, in order.

  Writing can fail, and the program does not decide whether it does: \<open>faults\<close> tells
  for each path how the next \<open>write_text\<close> on it ends. \<open>write_text\<close> opens the file
  for writing, which truncates it, writes, and closes. With \<open>OpenFails\<close> the open raises
  and the file is untouched; with \<open>WriteFails n\<close> the file was truncated, \<open>n\<close>
  characters reached it and then the write (or the flush at close) raised.
\<close>

type_synonym path = "string list"

datatype entry = Text string | Unreadable

datatype event = Printed string | Wrote path string

datatype fault = NoFault | OpenFails | WriteFails nat

record world =
  disk :: "path \<Rightarrow> entry option"
  entropy :: "nat \<Rightarrow> 8 word"
  drawn :: nat
  events :: "event list"
  faults :: "path \<Rightarrow> fault"

type_synonym 'a io = "world \<Rightarrow> (py_error + 'a) \<times> world"

definition io_return :: "'a \<Rightarrow> 'a io" where
  "io_return x w = (Inr x, w)"

definition io_raise :: "py_error \<Rightarrow> 'a io" where
  "io_raise e w = (Inl e, w)"

definition io_bind :: "'a io \<Rightarrow> ('a \<Rightarrow> 'b io) \<Rightarrow> 'b io" where
  "io_bind m f w = (case m w of (Inl e, w') \<Rightarrow> (Inl e, w') | (Inr x, w') \<Rightarrow> f x w')"

definition io_lift :: "py_error + 'a \<Rightarrow> 'a io" where
  "io_lift r w = (r, w)"

definition print :: "string \<Rightarrow> unit io" where
  "print line w = (Inr (), w\<lparr>events := events w @ [Printed line]\<rparr>)"

definition str_path :: "path \<Rightarrow> string" where
  "str_path p = concat (map (\<lambda>c. ''/'' @ c) p)"

subsection \<open>\<open>generate_xcode_id\<close>\<close>

definition token_bytes :: "nat \<Rightarrow> 8 word list io" where
  "token_bytes n w =
     (Inr (map (entropy w) [drawn w..<drawn w + n]), w\<lparr>drawn := drawn w + n\<rparr>)"

definition hex_digit :: "nat \<Rightarrow> char" where
  "hex_digit n = ''0123456789abcdef'' ! n"

text \<open>\<open>bytes.hex()\<close>: two lower-case digits for each byte.\<close>

definition hexlify :: "8 word list \<Rightarrow> string" where
  "hexlify bs = concat (map (\<lambda>b. [hex_digit (unat b div 16), hex_digit (unat b mod 16)]) bs)"

definition token_hex :: "nat \<Rightarrow> string io" where
  "token_hex n = io_bind (token_bytes n) (\<lambda>bs. io_return (hexlify bs))"

text \<open>\<open>str.upper\<close> on ASCII text.\<close>

definition upper_char :: "char \<Rightarrow> char" where
  "upper_char c =
     (case map_of (zip ''abcdefghijklmnopqrstuvwxyz'' ''ABCDEFGHIJKLMNOPQRSTUVWXYZ'') c of
        Some u \<Rightarrow> u
      | None \<Rightarrow> c)"

definition generate_xcode_id :: "string io" where
  "generate_xcode_id = io_bind (token_hex 12) (\<lambda>t. io_return (map upper_char t))"

subsection \<open>\<open>read_pbxproj\<close>, \<open>write_pbxproj\<close>\<close>

text \<open>
  \<open>Path.read_text\<close> opens the file in text mode with universal newlines: a carriage
  return followed by a line feed, and a carriage return alone, are read as one line feed.
\<close>

abbreviation CR :: char where "CR \<equiv> CHR 0x0D"

fun translate_newlines :: "string \<Rightarrow> string" where
  "translate_newlines [] = []"
| "translate_newlines [c] = [if c = CR then NL else c]"
| "translate_newlines (c # d # cs) =
     (if c = CR \<and> d = NL then NL # translate_newlines cs
      else if c = CR then NL # translate_newlines (d # cs)
      else c # translate_newlines (d # cs))"

definition read_pbxproj :: "path \<Rightarrow> string io" where
  "read_pbxproj project_path w =
     (let pbxproj_path = project_path @ [''project.pbxproj'']
      in case disk w pbxproj_path of
           None \<Rightarrow> (Inl FileNotFoundError, w)
         | Some Unreadable \<Rightarrow> (Inl ReadError, w)
         | Some (Text t) \<Rightarrow> (Inr (translate_newlines t), w))"

text \<open>
  \<open>Path.write_text\<close>, on a system whose line separator is the line feed (the script
  edits an Xcode project), so that the text is written as it is.
\<close>

definition write_pbxproj :: "path \<Rightarrow> string \<Rightarrow> unit io" where
  "write_pbxproj project_path content w =
     (let pbxproj_path = project_path @ [''project.pbxproj'']
      in case faults w pbxproj_path of
           OpenFails \<Rightarrow> (Inl WriteError, w)
         | WriteFails n \<Rightarrow>
             (Inl WriteError,
              w\<lparr>disk := (disk w)(pbxproj_path \<mapsto> Text (take n content)),
                events := events w @ [Wrote pbxproj_path (take n content)]\<rparr>)
         | NoFault \<Rightarrow>
             (Inr (),
              w\<lparr>disk := (disk w)(pbxproj_path \<mapsto> Text content),
                events := events w @ [Wrote pbxproj_path content]\<rparr>))"

subsection \<open>\<open>modify_pbxproj\<close>\<close>

definition modify_pbxproj :: "path \<Rightarrow> bool io" where
  "modify_pbxproj project_path =
     io_bind (read_pbxproj project_path) (\<lambda>content.
     io_bind generate_xcode_id (\<lambda>file_plugin.
     io_bind generate_xcode_id (\<lambda>file_service.
     io_bind generate_xcode_id (\<lambda>build_plugin.
     io_bind generate_xcode_id (\<lambda>build_service.
     let file_ids = \<lparr>plugin = file_plugin, service = file_service\<rparr>;
         build_ids = \<lparr>plugin = build_plugin, service = build_service\<rparr>
     in
     io_bind (print ''Generated PBXFileReference IDs:'') (\<lambda>_.
     io_bind (print (''  CloudKitPlugin.swift: '' @ plugin file_ids)) (\<lambda>_.
     io_bind (print (''  CloudKitService.swift: '' @ service file_ids)) (\<lambda>_.
     io_bind (print ''Generated PBXBuildFile IDs:'') (\<lambda>_.
     io_bind (print (''  CloudKitPlugin.swift: '' @ plugin build_ids)) (\<lambda>_.
     io_bind (print (''  CloudKitService.swift: '' @ service build_ids)) (\<lambda>_.
     io_bind (io_lift (add_pbx_build_files content build_ids file_ids)) (\<lambda>content.
     io_bind (print ''Added PBXBuildFile entries'') (\<lambda>_.
     io_bind (io_lift (add_pbx_file_references content file_ids)) (\<lambda>content.
     io_bind (print ''Added PBXFileReference entries'') (\<lambda>_.
     let content = add_to_runner_group content file_ids in
     io_bind (print ''Added files to Runner group'') (\<lambda>_.
     let content = add_to_sources_build_phase content build_ids in
     io_bind (print ''Added files to Sources build phase'') (\<lambda>_.
     io_bind (write_pbxproj project_path content) (\<lambda>_.
     io_bind (print (''Updated '' @ str_path (project_path @ [''project.pbxproj'']))) (\<lambda>_.
     io_return True)))))))))))))))))))"

fun occurs :: "pattern \<Rightarrow> string \<Rightarrow> bool" where
  "occurs p [] \<longleftrightarrow> re_match p [] \<noteq> None"
| "occurs p (c # cs) \<longleftrightarrow> re_match p (c # cs) \<noteq> None \<or> occurs p cs"

fun misses :: "pattern \<Rightarrow> string \<Rightarrow> string \<Rightarrow> bool" where
  "misses p [] rest \<longleftrightarrow> True"
| "misses p (c # pre) rest \<longleftrightarrow> re_match p (c # pre @ rest) = None \<and> misses p pre rest"

inductive inserted_before :: "string \<Rightarrow> string \<Rightarrow> string \<Rightarrow> string \<Rightarrow> bool"
  for block delim
  where
    same: "inserted_before block delim [] []"
  | copy: "inserted_before block delim xs ys \<Longrightarrow> inserted_before block delim (c # xs) (c # ys)"
  | put: "inserted_before block delim xs ys \<Longrightarrow>
          inserted_before block delim (delim @ xs) (block @ delim @ ys)"

definition xcode_id :: "string \<Rightarrow> bool" where
  "xcode_id s \<longleftrightarrow> length s = 24 \<and> list_all upper_hex s"

definition valid_ids :: "id_pair \<Rightarrow> bool" where
  "valid_ids p \<longleftrightarrow> xcode_id (plugin p) \<and> xcode_id (service p)"

definition reference_block :: "id_pair \<Rightarrow> string" where
  "reference_block file_ids = reference_plugin_entry file_ids @ reference_service_entry file_ids"

definition build_block :: "id_pair \<Rightarrow> id_pair \<Rightarrow> string" where
  "build_block build_ids file_ids =
     build_plugin_entry build_ids file_ids @ build_service_entry build_ids file_ids"

definition group_block :: "id_pair \<Rightarrow> string" where
  "group_block file_ids = group_plugin_ref file_ids @ group_service_ref file_ids"

definition phase_block :: "id_pair \<Rightarrow> string" where
  "phase_block build_ids = phase_plugin_ref build_ids @ phase_service_ref build_ids"

definition sample_file_ids :: id_pair where
  "sample_file_ids = \<lparr>plugin = ''0123456789ABCDEF01234567'', service = ''89ABCDEF0123456789ABCDEF''\<rparr>"

definition sample_build_ids :: id_pair where
  "sample_build_ids = \<lparr>plugin = ''FEDCBA9876543210FEDCBA98'', service = ''76543210FEDCBA9876543210''\<rparr>"

definition minimal_manifest :: string where
  "minimal_manifest =
     ''/* End PBXBuildFile section */'' @ [NL]
     @ ''/* End PBXFileReference section */'' @ [NL]
     @ [TAB, TAB, TAB, TAB] @ ''74858FAD1ED2DC5600515810 /* Runner-Bridging-Header.h */,'' @ [NL]
     @ [TAB, TAB, TAB] @ '');'' @ [NL]
     @ [TAB, TAB] @ ''97C146EA1CF9000F007C117D /* Sources */ = {'' @ [NL]
     @ [TAB, TAB, TAB] @ ''isa = PBXSourcesBuildPhase;'' @ [NL]
     @ [TAB, TAB, TAB] @ ''buildActionMask = 2147483647;'' @ [NL]
     @ [TAB, TAB, TAB] @ ''files = ('' @ [NL]
     @ [TAB, TAB, TAB] @ '');'' @ [NL]"

definition anchorless_text :: string where
  "anchorless_text = ''// !$*UTF8*$!'' @ [NL] @ ''{'' @ [NL] @ [TAB] @ ''archiveVersion = 1;'' @ [NL] @ ''}'' @ [NL]"

definition apply_editors :: "string \<Rightarrow> id_pair \<Rightarrow> id_pair \<Rightarrow> py_error + string" where
  "apply_editors content build_ids file_ids =
     (case add_pbx_build_files content build_ids file_ids of
        Inl e \<Rightarrow> Inl e
      | Inr built \<Rightarrow>
          (case add_pbx_file_references built file_ids of
             Inl e \<Rightarrow> Inl e
           | Inr referenced \<Rightarrow>
               Inr (add_to_sources_build_phase (add_to_runner_group referenced file_ids)
                      build_ids)))"

definition id_from :: "(nat \<Rightarrow> 8 word) \<Rightarrow> nat \<Rightarrow> string" where
  "id_from rnd pos = map upper_char (hexlify (map rnd [pos..<pos + 12]))"

definition nth_id :: "world \<Rightarrow> nat \<Rightarrow> string" where
  "nth_id w k = id_from (entropy w) (drawn w + 12 * k)"

definition run_file_ids :: "world \<Rightarrow> id_pair" where
  "run_file_ids w = \<lparr>plugin = nth_id w 0, service = nth_id w 1\<rparr>"

definition run_build_ids :: "world \<Rightarrow> id_pair" where
  "run_build_ids w = \<lparr>plugin = nth_id w 2, service = nth_id w 3\<rparr>"

definition is_write :: "event \<Rightarrow> bool" where
  "is_write ev = (case ev of Wrote p c \<Rightarrow> True | Printed l \<Rightarrow> False)"


definition two_anchor_text :: string where
  "two_anchor_text =
     ''/* End PBXFileReference section */'' @ [NL]
     @ ''/* End PBXFileReference section */'' @ [NL]"

definition sentinel_line :: string where
  "sentinel_line = ''74858FAD1ED2DC5600515810 /* Runner-Bridging-Header.h */,'' @ [NL]"

definition group_closing :: string where
  "group_closing = [TAB, TAB, TAB] @ '');''"

definition child_entry :: "string \<Rightarrow> string \<Rightarrow> string" where
  "child_entry token label = [TAB, TAB, TAB, TAB] @ token @ '' /* '' @ label @ '' */,'' @ [NL]"

definition runner_tail :: string where
  \<open>runner_tail =
     [NL] @ [TAB, TAB, TAB] @ ''path = Runner;'' @ [NL]
     @ [TAB, TAB, TAB] @ ''sourceTree = "<group>";''\<close>

definition children_head :: string where
  "children_head = [TAB, TAB, TAB] @ ''children = ('' @ [NL]"

definition group_end :: string where
  "group_end = [NL] @ [TAB, TAB] @ ''};'' @ [NL]"

fun prefix2 :: "string \<Rightarrow> string \<Rightarrow> string \<Rightarrow> bool" where
  "prefix2 [] u v \<longleftrightarrow> True"
| "prefix2 (x # xs) [] v \<longleftrightarrow> prefix (x # xs) v"
| "prefix2 (x # xs) (c # u) v \<longleftrightarrow> x = c \<and> prefix2 xs u v"

fun starts_in :: "string \<Rightarrow> string \<Rightarrow> string \<Rightarrow> bool" where
  "starts_in d [] v \<longleftrightarrow> False"
| "starts_in d (c # u) v \<longleftrightarrow> prefix2 d (c # u) v \<or> starts_in d u v"

definition only_at :: "string \<Rightarrow> string \<Rightarrow> string \<Rightarrow> bool" where
  "only_at d pre post \<longleftrightarrow> d \<noteq> [] \<and> \<not> starts_in d pre (d @ post) \<and> \<not> sublist d (tl d @ post)"

fun no_tail_prefix :: "string \<Rightarrow> string \<Rightarrow> bool" where
  "no_tail_prefix [] X \<longleftrightarrow> True"
| "no_tail_prefix (c # t) X \<longleftrightarrow> (t = [] \<or> \<not> prefix t X) \<and> no_tail_prefix t X"

definition clean :: "string \<Rightarrow> string \<Rightarrow> bool" where
  "clean d X \<longleftrightarrow>
     \<not> sublist d X \<and> length d < length X
     \<and> no_tail_prefix d X \<and> no_tail_prefix (rev d) (rev X)"

definition build_anchor :: string where
  "build_anchor = ''/* End PBXBuildFile section */''"

definition reference_anchor :: string where
  "reference_anchor = ''/* End PBXFileReference section */''"

definition phase_header :: string where
  "phase_header = ''97C146EA1CF9000F007C117D /* Sources */ = {''"


definition group_anchor :: string where
  "group_anchor = sentinel_line @ group_closing"

definition fallback_anchor :: string where
  "fallback_anchor = group_closing @ runner_tail"

definition hexfold :: "char \<Rightarrow> char" where
  "hexfold c = (if upper_hex c then CHR ''0'' else c)"

definition zero_ids :: id_pair where
  "zero_ids = \<lparr>plugin = ''000000000000000000000000'', service = ''000000000000000000000000''\<rparr>"




definition guarded :: "pattern \<Rightarrow> string \<Rightarrow> bool" where
  "guarded p d \<longleftrightarrow> (\<forall>s. re_match p s \<noteq> None \<longrightarrow> prefix d s)"

definition progress_events :: "id_pair \<Rightarrow> id_pair \<Rightarrow> event list" where
  "progress_events file_ids build_ids =
     [Printed ''Generated PBXFileReference IDs:'',
      Printed (''  CloudKitPlugin.swift: '' @ plugin file_ids),
      Printed (''  CloudKitService.swift: '' @ service file_ids),
      Printed ''Generated PBXBuildFile IDs:'',
      Printed (''  CloudKitPlugin.swift: '' @ plugin build_ids),
      Printed (''  CloudKitService.swift: '' @ service build_ids),
      Printed ''Added PBXBuildFile entries'',
      Printed ''Added PBXFileReference entries'',
      Printed ''Added files to Runner group'',
      Printed ''Added files to Sources build phase'']"

definition edit_and_write :: "path \<Rightarrow> string \<Rightarrow> id_pair \<Rightarrow> id_pair \<Rightarrow> bool io" where
  "edit_and_write project_path content file_ids build_ids =
     io_bind (print ''Generated PBXFileReference IDs:'') (\<lambda>_.
     io_bind (print (''  CloudKitPlugin.swift: '' @ plugin file_ids)) (\<lambda>_.
     io_bind (print (''  CloudKitService.swift: '' @ service file_ids)) (\<lambda>_.
     io_bind (print ''Generated PBXBuildFile IDs:'') (\<lambda>_.
     io_bind (print (''  CloudKitPlugin.swift: '' @ plugin build_ids)) (\<lambda>_.
     io_bind (print (''  CloudKitService.swift: '' @ service build_ids)) (\<lambda>_.
     io_bind (io_lift (add_pbx_build_files content build_ids file_ids)) (\<lambda>content.
     io_bind (print ''Added PBXBuildFile entries'') (\<lambda>_.
     io_bind (io_lift (add_pbx_file_references content file_ids)) (\<lambda>content.
     io_bind (print ''Added PBXFileReference entries'') (\<lambda>_.
     let content = add_to_runner_group content file_ids in
     io_bind (print ''Added files to Runner group'') (\<lambda>_.
     let content = add_to_sources_build_phase content build_ids in
     io_bind (print ''Added files to Sources build phase'') (\<lambda>_.
     io_bind (write_pbxproj project_path content) (\<lambda>_.
     io_bind (print (''Updated '' @ str_path (project_path @ [''project.pbxproj'']))) (\<lambda>_.
     io_return True))))))))))))))"

definition sample_world :: "entry option \<Rightarrow> fault \<Rightarrow> world" where
  "sample_world en ft =
     \<lparr>disk = (\<lambda>p. if p = [''Runner.xcodeproj'', ''project.pbxproj''] then en else None),
      entropy = (\<lambda>n. of_nat n), drawn = 0, events = [], faults = (\<lambda>p. ft)\<rparr>"

definition escaped_ids :: id_pair where
  "escaped_ids = \<lparr>plugin = [BSL] @ ''q123456789ABCDEF0123456'', service = ''89ABCDEF0123456789ABCDEF''\<rparr>"


lemma concat_chop: "concat (chop ks xs) = take (sum_list ks) xs"
  by (induction ks arbitrary: xs) (simp_all add: take_add)

lemma length_chop: "length (chop ks xs) = length ks"
  by (induction ks arbitrary: xs) simp_all

lemma re_match_SomeD:
  assumes "re_match p s = Some gs"
  shows "length gs = length p" and "prefix (concat gs) s"
  using assms by (auto simp: re_match_def length_chop concat_chop take_is_prefix)

lemma re_match_split:
  assumes "re_match p s = Some gs"
  shows "s = concat gs @ drop (length (concat gs)) s"
  using re_match_SomeD(2)[OF assms] by (auto simp: prefix_def)

lemma rx_match_last_Lit:
  "rx_match (rs @ [Lit d]) s = Some ns \<Longrightarrow>
     \<exists>ms. ns = ms @ [length d] \<and> length ms = length rs \<and> prefix d (drop (sum_list ms) s)"
proof (induction rs arbitrary: s ns)
  case Nil
  then show ?case by (auto split: if_splits)
next
  case (Cons r rs)
  show ?case
  proof (cases r)
    case (Lit l)
    with Cons.prems obtain ns' where 1: "rx_match (rs @ [Lit d]) (drop (length l) s) = Some ns'"
      and 2: "ns = length l # ns'"
      by (auto split: if_splits)
    from Cons.IH[OF 1] obtain ms where "ns' = ms @ [length d]" "length ms = length rs"
      "prefix d (drop (sum_list ms) (drop (length l) s))" by blast
    with 2 have "ns = (length l # ms) @ [length d] \<and> length (length l # ms) = length (r # rs)
        \<and> prefix d (drop (sum_list (length l # ms)) s)"
      by (simp add: add.commute)
    then show ?thesis by blast
  next
    case (Rep cls lo hi g)
    have fs: "first_some f xs = Some y \<Longrightarrow> \<exists>x\<in>set xs. f x = Some y" for f :: "nat \<Rightarrow> nat list option" and xs y
      by (induction xs) (auto split: option.splits)
    from Cons.prems Rep obtain n ns' where 1: "rx_match (rs @ [Lit d]) (drop n s) = Some ns'"
      and 2: "ns = n # ns'"
      by (auto dest!: fs)
    from Cons.IH[OF 1] obtain ms where "ns' = ms @ [length d]" "length ms = length rs"
      "prefix d (drop (sum_list ms) (drop n s))" by blast
    with 2 have "ns = (n # ms) @ [length d] \<and> length (n # ms) = length (r # rs)
        \<and> prefix d (drop (sum_list (n # ms)) s)"
      by (simp add: add.commute)
    then show ?thesis by blast
  qed
qed

lemma re_match_single_Lit:
  "re_match [[Lit d]] s = (if prefix d s then Some [d] else None)"
  by (auto simp: re_match_def prefix_def)

lemma re_match_two_groups:
  assumes "re_match [g, [Lit d]] s = Some gs"
  shows "\<exists>a. gs = [a, d] \<and> prefix (a @ d) s"
proof -
  from assms obtain ns where ns: "rx_match (g @ [Lit d]) s = Some ns"
    and gs: "gs = chop (map sum_list (chop [length g, 1] ns)) s"
    by (auto simp: re_match_def)
  from rx_match_last_Lit[OF ns] obtain ms where ms: "ns = ms @ [length d]"
    "length ms = length g" "prefix d (drop (sum_list ms) s)" by blast
  have "gs = [take (sum_list ms) s, d]"
    using gs ms by (auto simp: prefix_def)
  moreover have "prefix (take (sum_list ms) s @ d) s"
    using ms(3) by (metis append_take_drop_id same_prefix_prefix)
  ultimately show ?thesis by blast
qed

lemma re_sub_Cons_None:
  "re_match p (c # cs) = None \<Longrightarrow> re_sub p r (c # cs) = c # re_sub p r cs"
  by simp

lemma re_sub_Cons_empty:
  "re_match p (c # cs) = Some gs \<Longrightarrow> concat gs = [] \<Longrightarrow>
   re_sub p r (c # cs) = r gs @ c # re_sub p r cs"
proof -
  assume m: "re_match p (c # cs) = Some gs" and e: "concat gs = []"
  have "length (concat gs) = 0" using e by (simp only: list.size)
  with m show ?thesis by (simp del: length_0_conv concat_eq_Nil_conv length_concat)
qed

lemma re_sub_Cons_match:
  "re_match p (c # cs) = Some gs \<Longrightarrow> length (concat gs) = Suc k \<Longrightarrow>
   re_sub p r (c # cs) = r gs @ re_sub p r (drop k cs)"
  by simp

lemmas re_sub_Cons = re_sub_Cons_None re_sub_Cons_empty re_sub_Cons_match

declare re_sub.simps(2) [simp del]

lemma re_sub_absent: "\<not> occurs p s \<Longrightarrow> re_sub p r s = s"
  by (induction s) (auto simp: re_sub_Cons_None)

lemma occurs_iff: "occurs p s \<longleftrightarrow> (\<exists>i\<le>length s. re_match p (drop i s) \<noteq> None)"
proof (induction s)
  case Nil
  then show ?case by simp
next
  case (Cons c cs)
  have "(\<exists>i\<le>length (c # cs). re_match p (drop i (c # cs)) \<noteq> None) \<longleftrightarrow>
        re_match p (c # cs) \<noteq> None \<or> (\<exists>i\<le>length cs. re_match p (drop i cs) \<noteq> None)"
    (is "?l \<longleftrightarrow> ?a \<or> ?r")
  proof
    assume ?l
    then obtain i where i: "i \<le> length (c # cs)" "re_match p (drop i (c # cs)) \<noteq> None" by blast
    show "?a \<or> ?r"
    proof (cases i)
      case 0
      with i show ?thesis by simp
    next
      case (Suc j)
      with i have "j \<le> length cs" "re_match p (drop j cs) \<noteq> None" by simp_all
      then show ?thesis by blast
    qed
  next
    assume "?a \<or> ?r"
    then show ?l
    proof
      assume ?a
      then have "re_match p (drop 0 (c # cs)) \<noteq> None" by simp
      then show ?l by blast
    next
      assume ?r
      then obtain j where "j \<le> length cs" "re_match p (drop j cs) \<noteq> None" by blast
      then have "Suc j \<le> length (c # cs)" "re_match p (drop (Suc j) (c # cs)) \<noteq> None" by simp_all
      then show ?l by blast
    qed
  qed
  with Cons show ?case by simp
qed

lemma re_sub_first:
  assumes "misses p pre rest" and "re_match p rest = Some gs" and "concat gs \<noteq> []"
  shows "re_sub p r (pre @ rest) = pre @ r gs @ re_sub p r (drop (length (concat gs)) rest)"
  using assms(1)
proof (induction pre)
  case Nil
  from re_match_SomeD(2)[OF assms(2)] assms(3) obtain c cs where rest: "rest = c # cs"
    by (cases rest) auto
  from assms(3) obtain k where k: "length (concat gs) = Suc k"
    by (cases "length (concat gs)") auto
  show ?case using assms(2) k by (simp add: rest re_sub_Cons_match)
next
  case (Cons c pre)
  then show ?case by (simp add: re_sub_Cons_None)
qed

lemma re_sub_cong:
  assumes "\<And>t gs. re_match p t = Some gs \<Longrightarrow> r1 gs = r2 gs"
  shows "re_sub p r1 s = re_sub p r2 s"
proof (induction s rule: length_induct)
  case (1 s)
  show ?case
  proof (cases s)
    case Nil
    then show ?thesis using assms by (auto split: option.splits)
  next
    case (Cons c cs)
    show ?thesis
    proof (cases "re_match p (c # cs)")
      case None
      then show ?thesis using 1 Cons by (simp add: re_sub_Cons_None)
    next
      case (Some gs)
      then have eq: "r1 gs = r2 gs" by (rule assms)
      show ?thesis
      proof (cases "length (concat gs)")
        case 0
        then show ?thesis using 1 Cons Some eq by (simp add: re_sub_Cons_empty)
      next
        case (Suc k)
        then show ?thesis using 1 Cons Some eq by (simp add: re_sub_Cons_match)
      qed
    qed
  qed
qed

lemma re_sub_subseq:
  assumes "\<And>t gs. re_match p t = Some gs \<Longrightarrow> subseq (concat gs) (r gs)"
  shows "subseq s (re_sub p r s)"
proof (induction s rule: length_induct)
  case (1 s)
  show ?case
  proof (cases s)
    case Nil
    then show ?thesis by simp
  next
    case (Cons c cs)
    show ?thesis
    proof (cases "re_match p (c # cs)")
      case None
      then show ?thesis using 1 Cons by (simp add: re_sub_Cons_None)
    next
      case (Some gs)
      note sub = assms[OF Some]
      show ?thesis
      proof (cases "length (concat gs)")
        case 0
        have "subseq (c # cs) (c # re_sub p r cs)" using 1 Cons by simp
        then have "subseq (c # cs) (r gs @ c # re_sub p r cs)" by (rule list_emb_append2)
        then show ?thesis using Cons Some 0 by (simp add: re_sub_Cons_empty)
      next
        case (Suc k)
        have split: "c # cs = concat gs @ drop k cs"
          using re_match_split[OF Some] Suc by simp
        have "subseq (drop k cs) (re_sub p r (drop k cs))" using 1 Cons by simp
        with sub have "subseq (concat gs @ drop k cs) (r gs @ re_sub p r (drop k cs))"
          by (rule list_emb_append_mono)
        moreover have "re_sub p r (c # cs) = r gs @ re_sub p r (drop k cs)"
          by (rule re_sub_Cons_match[OF Some Suc])
        ultimately show ?thesis using Cons split by metis
      qed
    qed
  qed
qed

lemma inserted_before_refl: "inserted_before b d xs xs"
  by (induction xs) (auto intro: inserted_before.intros)

lemma inserted_before_append:
  "inserted_before b d xs ys \<Longrightarrow> inserted_before b d (zs @ xs) (zs @ ys)"
  by (induction zs) (auto intro: inserted_before.intros)

lemma re_sub_inserted_before:
  assumes "\<And>t gs. re_match p t = Some gs \<Longrightarrow>
             concat gs \<noteq> [] \<and> (\<exists>a z. concat gs = a @ d @ z \<and> r gs = a @ b @ d @ z)"
  shows "inserted_before b d s (re_sub p r s)"
proof (induction s rule: length_induct)
  case (1 s)
  show ?case
  proof (cases s)
    case Nil
    then show ?thesis using assms[of "[]"] re_match_SomeD(2)[of p "[]"]
      by (auto split: option.splits intro: inserted_before.intros)
  next
    case (Cons c cs)
    show ?thesis
    proof (cases "re_match p (c # cs)")
      case None
      then show ?thesis using 1 Cons by (auto simp: re_sub_Cons_None intro: inserted_before.intros)
    next
      case (Some gs)
      from assms[OF Some] obtain a z where ne: "concat gs \<noteq> []"
        and cg: "concat gs = a @ d @ z" and rg: "r gs = a @ b @ d @ z" by blast
      from ne obtain k where k: "length (concat gs) = Suc k"
        by (cases "length (concat gs)") auto
      have split: "c # cs = concat gs @ drop k cs"
        using re_match_split[OF Some] k by simp
      have "inserted_before b d (drop k cs) (re_sub p r (drop k cs))" using 1 Cons by simp
      then have "inserted_before b d (z @ drop k cs) (z @ re_sub p r (drop k cs))"
        by (rule inserted_before_append)
      then have "inserted_before b d (d @ z @ drop k cs) (b @ d @ z @ re_sub p r (drop k cs))"
        by (rule inserted_before.put)
      then have "inserted_before b d (a @ d @ z @ drop k cs) (a @ b @ d @ z @ re_sub p r (drop k cs))"
        by (rule inserted_before_append)
      moreover have "re_sub p r (c # cs) = a @ b @ d @ z @ re_sub p r (drop k cs)"
        using re_sub_Cons_match[OF Some k] rg by simp
      moreover have "c # cs = a @ d @ z @ drop k cs" using split cg by simp
      ultimately show ?thesis using Cons by metis
    qed
  qed
qed

lemma parse_template_plain:
  "BSL \<notin> set t \<Longrightarrow>
   parse_template (Suc g) (t @ [BSL, CHR ''1'']) = Inr (map TLit t @ [TGroup 1])"
  by (induction t) (auto simp: escape_def ascii_digit_def digit_val_def)

lemma expand_plain:
  "expand_template (map TLit t @ [TGroup (Suc 0)]) = (\<lambda>gs. t @ group_text gs (Suc 0))"
  by (rule ext) (simp add: expand_template_def comp_def del: group_text.simps)

lemma upper_hex_not_BSL: "upper_hex c \<Longrightarrow> c \<noteq> BSL"
  by (auto simp: upper_hex_def)

lemma xcode_id_no_BSL: "xcode_id s \<Longrightarrow> BSL \<notin> set s"
  by (auto simp: xcode_id_def list_all_iff dest: upper_hex_not_BSL)

lemma reference_block_no_BSL: "valid_ids f \<Longrightarrow> BSL \<notin> set (reference_block f)"
  by (simp add: reference_block_def reference_plugin_entry_def reference_service_entry_def
      valid_ids_def xcode_id_no_BSL)

lemma build_block_no_BSL: "valid_ids b \<Longrightarrow> valid_ids f \<Longrightarrow> BSL \<notin> set (build_block b f)"
  by (simp add: build_block_def build_plugin_entry_def build_service_entry_def
      valid_ids_def xcode_id_no_BSL)

lemma add_pbx_file_references_eq:
  assumes "valid_ids f"
  shows "add_pbx_file_references content f =
         Inr (re_sub file_reference_pattern (\<lambda>gs. reference_block f @ group_text gs 1) content)"
proof -
  have pt: "parse_template (Suc 0) (reference_block f @ [BSL, CHR ''1''])
        = Inr (map TLit (reference_block f) @ [TGroup 1])"
    by (rule parse_template_plain[OF reference_block_no_BSL[OF assms]])
  have t: "reference_plugin_entry f @ reference_service_entry f @ [BSL, CHR ''1'']
        = reference_block f @ [BSL, CHR ''1'']"
    by (simp add: reference_block_def)
  have l: "length file_reference_pattern = Suc 0"
    by (simp add: file_reference_pattern_def)
  show ?thesis
    unfolding add_pbx_file_references_def Let_def re_sub_template_def t l pt
    by (simp add: expand_plain del: group_text.simps)
qed

lemma add_pbx_build_files_eq:
  assumes "valid_ids b" "valid_ids f"
  shows "add_pbx_build_files content b f =
         Inr (re_sub build_file_pattern (\<lambda>gs. build_block b f @ group_text gs 1) content)"
proof -
  have pt: "parse_template (Suc 0) (build_block b f @ [BSL, CHR ''1''])
        = Inr (map TLit (build_block b f) @ [TGroup 1])"
    by (rule parse_template_plain[OF build_block_no_BSL[OF assms]])
  have t: "build_plugin_entry b f @ build_service_entry b f @ [BSL, CHR ''1'']
        = build_block b f @ [BSL, CHR ''1'']"
    by (simp add: build_block_def)
  have l: "length build_file_pattern = Suc 0"
    by (simp add: build_file_pattern_def)
  show ?thesis
    unfolding add_pbx_build_files_def Let_def re_sub_template_def t l pt
    by (simp add: expand_plain del: group_text.simps)
qed

lemma sublist_iff_prefix_drop: "sublist d s \<longleftrightarrow> (\<exists>i\<le>length s. prefix d (drop i s))"
proof
  assume "sublist d s"
  then obtain ps ss where "s = ps @ d @ ss" by (auto simp: sublist_def)
  then have "length ps \<le> length s" "prefix d (drop (length ps) s)" by simp_all
  then show "\<exists>i\<le>length s. prefix d (drop i s)" by blast
next
  assume "\<exists>i\<le>length s. prefix d (drop i s)"
  then obtain i zs where "drop i s = d @ zs" by (auto simp: prefix_def)
  then have "s = take i s @ d @ zs" by (metis append_take_drop_id)
  then show "sublist d s" by (auto simp: sublist_def)
qed

lemma occurs_single_Lit: "occurs [[Lit d]] s \<longleftrightarrow> sublist d s"
  by (auto simp: occurs_iff sublist_iff_prefix_drop re_match_single_Lit split: if_splits)

lemma hex_digit_upper: "n < 16 \<Longrightarrow> upper_hex (upper_char (hex_digit n))"
proof -
  assume "n < 16"
  then have "n \<in> {0,1,2,3,4,5,6,7,8,9,10,11,12,13,14,15}"
    by simp arith
  then show ?thesis
    by (elim insertE emptyE) (simp_all add: hex_digit_def upper_char_def upper_hex_def)
qed

lemma hexlify_shape:
  "length (map upper_char (hexlify bs)) = 2 * length bs \<and> list_all upper_hex (map upper_char (hexlify bs))"
proof (induction bs)
  case Nil
  then show ?case by (simp add: hexlify_def)
next
  case (Cons b bs)
  have "unat b < 256" using unsigned_less[of b] by simp
  then have "unat b div 16 < 16" by simp
  moreover have "unat b mod 16 < 16" by simp
  ultimately show ?case using Cons
    by (simp add: hexlify_def hex_digit_upper)
qed

lemma group_text_1 [simp]: "group_text (a # gs) 1 = a"
  by simp

lemma group_text_2 [simp]: "group_text (a # d # gs) 2 = d"
  by (simp add: numeral_2_eq_2)

lemma runner_group_replacer_eq:
  "runner_group_replacer f [a, d] = a @ group_block f @ d"
  by (simp add: runner_group_replacer_def group_block_def)

lemma sources_replacer_eq:
  "sources_replacer b [a, d] = a @ phase_block b @ d"
  by (simp add: sources_replacer_def phase_block_def)

lemma runner_group_match:
  assumes "re_match runner_group_pattern s = Some gs"
  shows "\<exists>a. gs = [a, [TAB, TAB, TAB] @ '');''] \<and> prefix (a @ [TAB, TAB, TAB] @ '');'') s"
  using re_match_two_groups[of _ "[TAB, TAB, TAB] @ '');''" s gs] assms
  by (simp add: runner_group_pattern_def)

lemma alt_match:
  assumes "re_match alt_pattern s = Some gs"
  shows "\<exists>a z. gs = [a, [TAB, TAB, TAB] @ '');'' @ z] \<and> prefix (a @ [TAB, TAB, TAB] @ '');'' @ z) s"
proof -
  from re_match_two_groups[OF assms[unfolded alt_pattern_def]]
  obtain a d where "gs = [a, d]" "prefix (a @ d) s" "prefix ([TAB, TAB, TAB] @ '');'') d"
    by auto
  then show ?thesis by (auto simp: prefix_def)
qed

lemma sources_phase_match:
  assumes "re_match sources_phase_pattern s = Some gs"
  shows "\<exists>a. gs = [a, [TAB, TAB] @ '');''] \<and> prefix (a @ [TAB, TAB] @ '');'') s"
  using re_match_two_groups[of _ "[TAB, TAB] @ '');''" s gs] assms
  by (simp add: sources_phase_pattern_def)

lemma subseq_insert_mid: "subseq (a @ d) (a @ x @ d)"
proof -
  have "subseq d (x @ d)" by (rule list_emb_append2) simp
  then show ?thesis by (simp add: subseq_append')
qed

lemma literal_editor_subseq:
  "subseq s (re_sub [[Lit d]] (\<lambda>gs. blk @ group_text gs 1) s)"
  by (rule re_sub_subseq) (auto simp: re_match_single_Lit split: if_splits)

lemma literal_editor_inserted:
  "d \<noteq> [] \<Longrightarrow> inserted_before blk d s (re_sub [[Lit d]] (\<lambda>gs. blk @ group_text gs 1) s)"
proof (rule re_sub_inserted_before)
  fix t gs
  assume d: "d \<noteq> []" and "re_match [[Lit d]] t = Some gs"
  then have gs: "gs = [d]" by (auto simp: re_match_single_Lit split: if_splits)
  have "concat gs = [] @ d @ []" "blk @ group_text gs 1 = [] @ blk @ d @ []"
    by (simp_all add: gs)
  then show "concat gs \<noteq> [] \<and> (\<exists>a z. concat gs = a @ d @ z \<and> blk @ group_text gs 1 = a @ blk @ d @ z)"
    using d gs by (metis append_Nil concat.simps(2) self_append_conv)
qed

lemma literal_editor_absent:
  "\<not> sublist d s \<Longrightarrow> re_sub [[Lit d]] r s = s"
  by (rule re_sub_absent) (simp add: occurs_single_Lit)

lemma primary_subseq:
  "subseq s (re_sub runner_group_pattern (runner_group_replacer f) s)"
proof (rule re_sub_subseq)
  fix t gs
  assume "re_match runner_group_pattern t = Some gs"
  from runner_group_match[OF this] obtain a where "gs = [a, [TAB, TAB, TAB] @ '');'']" by blast
  then show "subseq (concat gs) (runner_group_replacer f gs)"
    using subseq_insert_mid[of a "[TAB, TAB, TAB] @ '');''" "group_block f"]
    by (simp add: runner_group_replacer_eq)
qed

lemma alt_subseq:
  "subseq s (re_sub alt_pattern
      (\<lambda>m. group_text m 1 @ group_plugin_ref f @ group_service_ref f @ group_text m 2) s)"
proof (rule re_sub_subseq)
  fix t gs
  assume "re_match alt_pattern t = Some gs"
  from alt_match[OF this] obtain a z where "gs = [a, [TAB, TAB, TAB] @ '');'' @ z]" by blast
  then show "subseq (concat gs)
     (group_text gs 1 @ group_plugin_ref f @ group_service_ref f @ group_text gs 2)"
    using subseq_insert_mid[of a "[TAB, TAB, TAB] @ '');'' @ z" "group_block f"]
    by (simp add: group_block_def)
qed

lemma phase_subseq:
  "subseq s (re_sub sources_phase_pattern (sources_replacer b) s)"
proof (rule re_sub_subseq)
  fix t gs
  assume "re_match sources_phase_pattern t = Some gs"
  from sources_phase_match[OF this] obtain a where "gs = [a, [TAB, TAB] @ '');'']" by blast
  then show "subseq (concat gs) (sources_replacer b gs)"
    using subseq_insert_mid[of a "[TAB, TAB] @ '');''" "phase_block b"]
    by (simp add: sources_replacer_eq)
qed

lemma primary_inserted:
  "inserted_before (group_block f) ([TAB, TAB, TAB] @ '');'') s
     (re_sub runner_group_pattern (runner_group_replacer f) s)"
proof (rule re_sub_inserted_before)
  fix t gs
  assume "re_match runner_group_pattern t = Some gs"
  from runner_group_match[OF this] obtain a where gs: "gs = [a, [TAB, TAB, TAB] @ '');'']"
    by blast
  have "concat gs = a @ ([TAB, TAB, TAB] @ '');'') @ []"
     "runner_group_replacer f gs = a @ group_block f @ ([TAB, TAB, TAB] @ '');'') @ []"
    unfolding gs runner_group_replacer_eq by simp_all
  moreover have "concat gs \<noteq> []" by (simp add: gs)
  ultimately show "concat gs \<noteq> [] \<and> (\<exists>a z. concat gs = a @ ([TAB, TAB, TAB] @ '');'') @ z
       \<and> runner_group_replacer f gs = a @ group_block f @ ([TAB, TAB, TAB] @ '');'') @ z)"
    by blast
qed

lemma alt_inserted:
  "inserted_before (group_block f) ([TAB, TAB, TAB] @ '');'') s
     (re_sub alt_pattern
       (\<lambda>m. group_text m 1 @ group_plugin_ref f @ group_service_ref f @ group_text m 2) s)"
proof (rule re_sub_inserted_before)
  fix t gs
  assume "re_match alt_pattern t = Some gs"
  from alt_match[OF this] obtain a z where gs: "gs = [a, [TAB, TAB, TAB] @ '');'' @ z]"
    by blast
  have "concat gs = a @ ([TAB, TAB, TAB] @ '');'') @ z"
     "group_text gs 1 @ group_plugin_ref f @ group_service_ref f @ group_text gs 2
        = a @ group_block f @ ([TAB, TAB, TAB] @ '');'') @ z"
    unfolding gs by (simp_all add: group_block_def)
  moreover have "concat gs \<noteq> []" by (simp add: gs)
  ultimately show "concat gs \<noteq> [] \<and> (\<exists>a z. concat gs = a @ ([TAB, TAB, TAB] @ '');'') @ z
       \<and> group_text gs 1 @ group_plugin_ref f @ group_service_ref f @ group_text gs 2
           = a @ group_block f @ ([TAB, TAB, TAB] @ '');'') @ z)"
    by blast
qed

lemma phase_inserted:
  "inserted_before (phase_block b) ([TAB, TAB] @ '');'') s
     (re_sub sources_phase_pattern (sources_replacer b) s)"
proof (rule re_sub_inserted_before)
  fix t gs
  assume "re_match sources_phase_pattern t = Some gs"
  from sources_phase_match[OF this] obtain a where gs: "gs = [a, [TAB, TAB] @ '');'']"
    by blast
  have "concat gs = a @ ([TAB, TAB] @ '');'') @ []"
     "sources_replacer b gs = a @ phase_block b @ ([TAB, TAB] @ '');'') @ []"
    unfolding gs sources_replacer_eq by simp_all
  moreover have "concat gs \<noteq> []" by (simp add: gs)
  ultimately show "concat gs \<noteq> [] \<and> (\<exists>a z. concat gs = a @ ([TAB, TAB] @ '');'') @ z
       \<and> sources_replacer b gs = a @ phase_block b @ ([TAB, TAB] @ '');'') @ z)"
    by blast
qed

lemma valid_sample_file_ids: "valid_ids sample_file_ids"
  by (simp add: valid_ids_def xcode_id_def sample_file_ids_def upper_hex_def)

lemma valid_sample_build_ids: "valid_ids sample_build_ids"
  by (simp add: valid_ids_def xcode_id_def sample_build_ids_def upper_hex_def)

lemma xcode_id_id_from: "xcode_id (id_from rnd pos)"
  using hexlify_shape[of "map rnd [pos..<pos + 12]"]
  by (simp add: xcode_id_def id_from_def)

lemma valid_run_ids: "valid_ids (run_file_ids w)" "valid_ids (run_build_ids w)"
  by (simp_all add: valid_ids_def run_file_ids_def run_build_ids_def nth_id_def xcode_id_id_from)

lemma io_bind_generate:
  "io_bind generate_xcode_id f w = f (id_from (entropy w) (drawn w)) (w\<lparr>drawn := drawn w + 12\<rparr>)"
  by (simp add: generate_xcode_id_def token_hex_def token_bytes_def io_bind_def io_return_def
      id_from_def)

lemma io_bind_print:
  "io_bind (print l) f w = f () (w\<lparr>events := events w @ [Printed l]\<rparr>)"
  by (simp add: io_bind_def print_def)

lemma io_bind_lift_Inr: "io_bind (io_lift (Inr x)) f w = f x w"
  by (simp add: io_bind_def io_lift_def)

lemma apply_editors_total:
  assumes "valid_ids b" "valid_ids f"
  shows "\<exists>out. apply_editors content b f = Inr out"
  by (simp add: apply_editors_def add_pbx_build_files_eq[OF assms]
      add_pbx_file_references_eq[OF assms(2)] del: group_text.simps)

lemma modify_pbxproj_missing:
  "disk w (project_path @ [''project.pbxproj'']) = None \<Longrightarrow>
   modify_pbxproj project_path w = (Inl FileNotFoundError, w)"
  by (simp add: modify_pbxproj_def io_bind_def read_pbxproj_def)

lemma modify_pbxproj_unreadable:
  "disk w (project_path @ [''project.pbxproj'']) = Some Unreadable \<Longrightarrow>
   modify_pbxproj project_path w = (Inl ReadError, w)"
  by (simp add: modify_pbxproj_def io_bind_def read_pbxproj_def)

lemma misses_iff:
  "misses p pre rest \<longleftrightarrow> (\<forall>i<length pre. re_match p (drop i pre @ rest) = None)"
proof (induction pre)
  case Nil
  then show ?case by simp
next
  case (Cons c pre)
  have "(\<forall>i<length (c # pre). re_match p (drop i (c # pre) @ rest) = None) \<longleftrightarrow>
        re_match p (c # pre @ rest) = None \<and> (\<forall>i<length pre. re_match p (drop i pre @ rest) = None)"
    (is "?l \<longleftrightarrow> ?a \<and> ?r")
  proof
    assume l: ?l
    then have "re_match p (drop 0 (c # pre) @ rest) = None" by blast
    moreover have "re_match p (drop i pre @ rest) = None" if "i < length pre" for i
      using l[rule_format, of "Suc i"] that by simp
    ultimately show "?a \<and> ?r" by simp
  next
    assume ar: "?a \<and> ?r"
    show ?l
    proof (intro allI impI)
      fix i assume "i < length (c # pre)"
      then show "re_match p (drop i (c # pre) @ rest) = None"
        using ar by (cases i) simp_all
    qed
  qed
  with Cons show ?case by simp
qed

lemma take_append_short: "n \<le> length xs \<Longrightarrow> take n (xs @ ys) = take n xs"
  by simp

lemma prefix_into_butlast:
  assumes "prefix d (u @ d @ rest)" and "u \<noteq> []"
  shows "prefix d (u @ butlast d)"
proof (cases "d = []")
  case True
  then show ?thesis by simp
next
  case False
  have len: "length d \<le> length (u @ butlast d)"
    using assms(2) by (cases u) (simp_all add: le_diff_conv)
  have split: "u @ d @ rest = (u @ butlast d) @ (last d # rest)"
    using False by (metis append.assoc append_Cons append_Nil append_butlast_last_id)
  have "d = take (length d) (u @ d @ rest)"
    using assms(1) by (metis append_eq_conv_conj prefix_def)
  also have "\<dots> = take (length d) ((u @ butlast d) @ (last d # rest))"
    by (simp only: split)
  also have "\<dots> = take (length d) (u @ butlast d)"
    by (rule take_append_short[OF len])
  finally have "d = take (length d) (u @ butlast d)" .
  then show ?thesis by (metis take_is_prefix)
qed

lemma literal_misses:
  assumes "\<not> sublist d (pre @ butlast d)"
  shows "misses [[Lit d]] pre (d @ rest)"
  unfolding misses_iff
proof (intro allI impI)
  fix i assume i: "i < length pre"
  show "re_match [[Lit d]] (drop i pre @ d @ rest) = None"
  proof (rule ccontr)
    assume "re_match [[Lit d]] (drop i pre @ d @ rest) \<noteq> None"
    then have "prefix d (drop i pre @ d @ rest)"
      by (simp add: re_match_single_Lit split: if_splits)
    moreover have "drop i pre \<noteq> []" using i by simp
    ultimately have "prefix d (drop i pre @ butlast d)" by (rule prefix_into_butlast)
    then have "prefix d (drop i (pre @ butlast d))" using i by simp
    then have "sublist d (pre @ butlast d)"
      using i by (auto simp: sublist_iff_prefix_drop intro!: exI[of _ i])
    with assms show False by simp
  qed
qed

lemma literal_editor_first:
  assumes "\<not> sublist d (pre @ butlast d)" and "d \<noteq> []"
  shows "re_sub [[Lit d]] (\<lambda>gs. blk @ group_text gs 1) (pre @ d @ rest)
         = pre @ blk @ d @ re_sub [[Lit d]] (\<lambda>gs. blk @ group_text gs 1) rest"
proof -
  have m: "re_match [[Lit d]] (d @ rest) = Some [d]"
    by (simp add: re_match_single_Lit)
  have c: "concat [d] \<noteq> []" using assms(2) by simp
  from re_sub_first[OF literal_misses[OF assms(1)] m c, of "\<lambda>gs. blk @ group_text gs 1"]
  show ?thesis by simp
qed

lemma file_references_first:
  assumes "valid_ids f"
    and "\<not> sublist ''/* End PBXFileReference section */'' (pre @ ''/* End PBXFileReference section *'')"
  shows "\<exists>out. add_pbx_file_references rest f = Inr out
     \<and> add_pbx_file_references (pre @ ''/* End PBXFileReference section */'' @ rest) f
        = Inr (pre @ reference_block f @ ''/* End PBXFileReference section */'' @ out)"
proof -
  have "\<not> sublist ''/* End PBXFileReference section */''
           (pre @ butlast ''/* End PBXFileReference section */'')"
    using assms(2) by simp
  from literal_editor_first[OF this, of "reference_block f" rest]
  show ?thesis
    by (simp add: add_pbx_file_references_eq[OF assms(1)] file_reference_pattern_def
        del: group_text.simps)
qed

lemma build_files_first:
  assumes "valid_ids b" "valid_ids f"
    and "\<not> sublist ''/* End PBXBuildFile section */'' (pre @ ''/* End PBXBuildFile section *'')"
  shows "\<exists>out. add_pbx_build_files rest b f = Inr out
     \<and> add_pbx_build_files (pre @ ''/* End PBXBuildFile section */'' @ rest) b f
        = Inr (pre @ build_block b f @ ''/* End PBXBuildFile section */'' @ out)"
proof -
  have "\<not> sublist ''/* End PBXBuildFile section */''
           (pre @ butlast ''/* End PBXBuildFile section */'')"
    using assms(3) by simp
  from literal_editor_first[OF this, of "build_block b f" rest]
  show ?thesis
    by (simp add: add_pbx_build_files_eq[OF assms(1,2)] build_file_pattern_def
        del: group_text.simps)
qed

lemma takeWhile_run:
  "list_all P u \<Longrightarrow> \<not> P c \<Longrightarrow> takeWhile P (u @ c # v) = u"
  by (induction u) simp_all

lemma rx_match_Lit:
  "rx_match (Lit l # rs) s =
     (if prefix l s then map_option ((#) (length l)) (rx_match rs (drop (length l) s)) else None)"
  by simp

lemma rx_match_Rep_exact:
  assumes "list_all cls u" "\<not> cls c"
  shows "rx_match (Rep cls (length u) (Some (length u)) True # rs) (u @ c # v)
         = map_option ((#) (length u)) (rx_match rs (c # v))"
  using assms by (simp add: counts_def takeWhile_run split: option.splits)

lemma rx_match_Rep_greedy_back:
  assumes "list_all cls (u @ [x])" "\<not> cls c" "lo \<le> length u"
    and "rx_match rs (c # v) = None"
    and "rx_match rs (x # c # v) = Some ns"
  shows "rx_match (Rep cls lo None True # rs) (u @ x # c # v) = Some (length u # ns)"
proof -
  have tw: "takeWhile cls (u @ x # c # v) = u @ [x]"
    using takeWhile_run[OF assms(1,2), of v] by simp
  have up: "rev [lo..<Suc (Suc (length u))] = Suc (length u) # length u # rev [lo..<length u]"
    using assms(3) by simp
  have d1: "drop (Suc (length u)) (u @ x # c # v) = c # v" by simp
  have d0: "drop (length u) (u @ x # c # v) = x # c # v" by simp
  show ?thesis
    unfolding rx_match.simps rx.case counts_def Let_def tw option.case
    using assms(4,5) by (simp add: up d1 d0 del: upt_Suc drop_append)
qed

declare rx_match.simps(2) [simp del]

lemma chop_two: "chop [length a, length b] (a @ b @ rest) = [a, b]"
  by simp

lemma alt_pattern_matches:
  assumes tok: "xcode_id token" and lab: "label \<noteq> []" "CHR ''*'' \<notin> set label"
  shows "re_match alt_pattern (child_entry token label @ group_closing @ runner_tail @ rest)
         = Some [child_entry token label, group_closing @ runner_tail]"
proof -
  have t24: "length token = 24" and thex: "list_all upper_hex token"
    using tok by (simp_all add: xcode_id_def)
  have ns: "list_all not_star (label @ '' '')"
    using lab(2) by (auto simp: list_all_iff not_star_def)
  have one: "1 \<le> length label" using lab(1) by (cases label) simp_all
  let ?tail = "[TAB, TAB, TAB] @ '');'' @ [NL] @ [TAB, TAB, TAB] @ ''path = Runner;'' @ [NL]
           @ [TAB, TAB, TAB] @ ''sourceTree = '' @ [CHR 0x22] @ ''<group>'' @ [CHR 0x22] @ '';''"
  let ?rs = "[Lit ('' */,'' @ [NL]), Lit ?tail]"
  let ?v = "''/,'' @ [NL] @ ?tail @ rest"
  have over: "rx_match ?rs (CHR ''*'' # ?v) = None"
    by (simp add: rx_match_Lit)
  have at: "rx_match ?rs (CHR '' '' # CHR ''*'' # ?v) = Some [5, 50]"
    by (simp add: rx_match_Lit)
  have r4: "rx_match (Rep not_star 1 None True # ?rs) (label @ CHR '' '' # CHR ''*'' # ?v)
            = Some [length label, 5, 50]"
    using rx_match_Rep_greedy_back[OF ns _ one over at] by (simp add: not_star_def)
  have r3: "rx_match (Lit '' /* '' # Rep not_star 1 None True # ?rs)
              (CHR '' '' # ''/* '' @ label @ CHR '' '' # CHR ''*'' # ?v)
            = Some [4, length label, 5, 50]"
    using r4 by (simp add: rx_match_Lit)
  have r2: "rx_match (Rep upper_hex 24 (Some 24) True # Lit '' /* '' # Rep not_star 1 None True # ?rs)
              (token @ CHR '' '' # ''/* '' @ label @ CHR '' '' # CHR ''*'' # ?v)
            = Some [24, 4, length label, 5, 50]"
    using rx_match_Rep_exact[OF thex, of "CHR '' ''"
        "Lit '' /* '' # Rep not_star 1 None True # ?rs"
        "''/* '' @ label @ CHR '' '' # CHR ''*'' # ?v"] r3
    by (simp add: t24 upper_hex_def)
  have r1: "rx_match (concat alt_pattern)
              ([TAB, TAB, TAB, TAB] @ token @ CHR '' '' # ''/* '' @ label @ CHR '' '' # CHR ''*'' # ?v)
            = Some [4, 24, 4, length label, 5, 50]"
    using r2 by (simp add: rx_match_Lit alt_pattern_def)
  have s: "child_entry token label @ group_closing @ runner_tail @ rest
           = [TAB, TAB, TAB, TAB] @ token @ CHR '' '' # ''/* '' @ label @ CHR '' '' # CHR ''*'' # ?v"
    by (simp add: child_entry_def group_closing_def runner_tail_def)
  have l: "map length alt_pattern = [5, 1]" by (simp add: alt_pattern_def)
  have sums: "map sum_list (chop [5, 1] [4, 24, 4, length label, 5, 50])
              = [length (child_entry token label), length (group_closing @ runner_tail)]"
    by (simp add: t24 child_entry_def group_closing_def runner_tail_def)
  have r1': "rx_match (concat alt_pattern)
               (child_entry token label @ group_closing @ runner_tail @ rest)
             = Some [4, 24, 4, length label, 5, 50]"
    unfolding s by (rule r1)
  show ?thesis
    unfolding re_match_def l r1' option.map sums
    using chop_two[of "child_entry token label" "group_closing @ runner_tail" rest]
    by simp
qed

lemma runner_group_pattern_matches:
  "re_match runner_group_pattern (sentinel_line @ group_closing @ rest)
   = Some [sentinel_line, group_closing]"
proof -
  have r: "rx_match (concat runner_group_pattern) (sentinel_line @ group_closing @ rest)
           = Some [length sentinel_line, length group_closing]"
    by (simp add: runner_group_pattern_def rx_match_Lit sentinel_line_def group_closing_def)
  have l: "map length runner_group_pattern = [1, 1]" by (simp add: runner_group_pattern_def)
  show ?thesis
    unfolding re_match_def l r option.map
    using chop_two[of sentinel_line group_closing rest] by simp
qed

lemma occurs_append: "occurs p rest \<Longrightarrow> occurs p (xs @ rest)"
  by (induction xs) simp_all

lemma group_block_nonempty: "group_block f \<noteq> []"
  by (simp add: group_block_def group_plugin_ref_def)

lemma primary_first:
  assumes "misses runner_group_pattern pre (sentinel_line @ group_closing @ rest)"
  shows "re_sub runner_group_pattern (runner_group_replacer f)
           (pre @ sentinel_line @ group_closing @ rest)
         = pre @ sentinel_line @ group_block f @ group_closing
             @ re_sub runner_group_pattern (runner_group_replacer f) rest"
proof -
  have c: "concat [sentinel_line, group_closing] \<noteq> []" by (simp add: group_closing_def)
  from re_sub_first[OF assms runner_group_pattern_matches c, of "runner_group_replacer f"]
  show ?thesis by (simp add: runner_group_replacer_eq)
qed

lemma alt_first:
  assumes "xcode_id token" "label \<noteq> []" "CHR ''*'' \<notin> set label"
    and "misses alt_pattern pre (child_entry token label @ group_closing @ runner_tail @ rest)"
  shows "re_sub alt_pattern
           (\<lambda>m. group_text m 1 @ group_plugin_ref f @ group_service_ref f @ group_text m 2)
           (pre @ child_entry token label @ group_closing @ runner_tail @ rest)
         = pre @ child_entry token label @ group_block f @ group_closing @ runner_tail
             @ re_sub alt_pattern
                 (\<lambda>m. group_text m 1 @ group_plugin_ref f @ group_service_ref f @ group_text m 2)
                 rest"
proof -
  have c: "concat [child_entry token label, group_closing @ runner_tail] \<noteq> []"
    by (simp add: group_closing_def)
  from re_sub_first[OF assms(4) alt_pattern_matches[OF assms(1-3)] c,
      of "\<lambda>m. group_text m 1 @ group_plugin_ref f @ group_service_ref f @ group_text m 2"]
  show ?thesis by (simp add: group_block_def)
qed

lemma add_to_runner_group_no_primary:
  assumes "\<not> occurs runner_group_pattern content"
  shows "add_to_runner_group content f
         = re_sub alt_pattern
             (\<lambda>m. group_text m 1 @ group_plugin_ref f @ group_service_ref f @ group_text m 2)
             content"
  using re_sub_absent[OF assms, of "runner_group_replacer f"]
  by (simp add: add_to_runner_group_def del: group_text.simps)

lemma append_eq_cases:
  assumes "xs @ ys = zs @ ts"
  obtains w where "xs = zs @ w" "w @ ys = ts" | w where "xs @ w = zs" "ys = w @ ts"
  using assms by (metis append_eq_append_conv2)

lemma prefix2_eq: "prefix2 d u v \<longleftrightarrow> prefix d (u @ v)"
  by (induction d u v rule: prefix2.induct) simp_all

lemma starts_in_iff:
  "starts_in d u v \<longleftrightarrow> (\<exists>a b. u = a @ b \<and> b \<noteq> [] \<and> prefix d (b @ v))"
proof (induction u)
  case Nil
  then show ?case by simp
next
  case (Cons c u)
  show ?case
  proof
    assume "starts_in d (c # u) v"
    then consider "prefix d ((c # u) @ v)" | "starts_in d u v" by (auto simp: prefix2_eq)
    then show "\<exists>a b. c # u = a @ b \<and> b \<noteq> [] \<and> prefix d (b @ v)"
    proof cases
      case 1
      then have "c # u = [] @ (c # u) \<and> c # u \<noteq> [] \<and> prefix d ((c # u) @ v)" by simp
      then show ?thesis by blast
    next
      case 2
      with Cons obtain a b where "u = a @ b" "b \<noteq> []" "prefix d (b @ v)" by blast
      then have "c # u = (c # a) @ b \<and> b \<noteq> [] \<and> prefix d (b @ v)" by simp
      then show ?thesis by blast
    qed
  next
    assume "\<exists>a b. c # u = a @ b \<and> b \<noteq> [] \<and> prefix d (b @ v)"
    then obtain a b where ab: "c # u = a @ b" "b \<noteq> []" "prefix d (b @ v)" by blast
    show "starts_in d (c # u) v"
    proof (cases a)
      case Nil
      with ab have "prefix d ((c # u) @ v)" by simp
      then show ?thesis by (simp add: prefix2_eq)
    next
      case (Cons x a')
      with ab have "u = a' @ b" by simp
      with ab Cons.IH show ?thesis by auto
    qed
  qed
qed

lemma only_at_iff:
  "only_at d pre post \<longleftrightarrow> d \<noteq> [] \<and> (\<forall>u v. pre @ d @ post = u @ d @ v \<longrightarrow> u = pre)"
proof (cases "d = []")
  case True
  then show ?thesis by (simp add: only_at_def)
next
  case ne: False
  show ?thesis
  proof
    assume o: "only_at d pre post"
    have "u = pre" if eq: "pre @ d @ post = u @ d @ v" for u v
    proof -
      from eq consider
          (I) w where "pre = u @ w" "w @ d @ post = d @ v"
        | (II) w where "pre @ w = u" "d @ post = w @ d @ v"
        by (rule append_eq_cases)
      then show ?thesis
      proof cases
        case I
        show ?thesis
        proof (cases "w = []")
          case True
          with I show ?thesis by simp
        next
          case False
          have "prefix d (w @ d @ post)" using I(2) by simp
          with I(1) False have "starts_in d pre (d @ post)"
            unfolding starts_in_iff by blast
          with o show ?thesis by (simp add: only_at_def)
        qed
      next
        case II
        show ?thesis
        proof (cases "w = []")
          case True
          with II show ?thesis by simp
        next
          case False
          then obtain x w' where w: "w = x # w'" by (cases w) auto
          with II(2) ne have "tl d @ post = w' @ d @ v" by (cases d) auto
          then have "sublist d (tl d @ post)" by (auto simp: sublist_def)
          with o show ?thesis by (simp add: only_at_def)
        qed
      qed
    qed
    with ne show "d \<noteq> [] \<and> (\<forall>u v. pre @ d @ post = u @ d @ v \<longrightarrow> u = pre)" by blast
  next
    assume r: "d \<noteq> [] \<and> (\<forall>u v. pre @ d @ post = u @ d @ v \<longrightarrow> u = pre)"
    have 1: "\<not> starts_in d pre (d @ post)"
    proof
      assume "starts_in d pre (d @ post)"
      then obtain a b v where ab: "pre = a @ b" "b \<noteq> []" "b @ d @ post = d @ v"
        unfolding starts_in_iff prefix_def by blast
      then have "pre @ d @ post = a @ d @ v" by simp
      with r have "a = pre" by blast
      with ab show False by simp
    qed
    have 2: "\<not> sublist d (tl d @ post)"
    proof
      assume "sublist d (tl d @ post)"
      then obtain a v where "tl d @ post = a @ d @ v" by (auto simp: sublist_def)
      then have "d @ post = (hd d # a) @ d @ v" using ne by (cases d) auto
      then have "pre @ d @ post = (pre @ hd d # a) @ d @ v" by simp
      with r have "pre @ hd d # a = pre" by blast
      then show False by simp
    qed
    from ne 1 2 show "only_at d pre post" by (simp add: only_at_def)
  qed
qed

lemma no_tail_prefixD:
  "no_tail_prefix d X \<Longrightarrow> d = a @ b \<Longrightarrow> a \<noteq> [] \<Longrightarrow> b \<noteq> [] \<Longrightarrow> \<not> prefix b X"
proof (induction d arbitrary: a)
  case Nil
  then show ?case by simp
next
  case (Cons c t)
  from Cons.prems(2,3) obtain a' where a: "a = c # a'" "t = a' @ b" by (cases a) auto
  show ?case
  proof (cases "a' = []")
    case True
    with a Cons.prems(1,4) show ?thesis by auto
  next
    case False
    from Cons.prems(1) have "no_tail_prefix t X" by simp
    from Cons.IH[OF this a(2) False Cons.prems(4)] show ?thesis .
  qed
qed

lemma cleanD:
  assumes "clean d X" "d = a @ b" "a \<noteq> []" "b \<noteq> []"
  shows "\<not> prefix b X" and "\<not> suffix a X"
proof -
  from assms(1) have 1: "no_tail_prefix d X" and 2: "no_tail_prefix (rev d) (rev X)"
    by (simp_all add: clean_def)
  show "\<not> prefix b X" by (rule no_tail_prefixD[OF 1 assms(2-4)])
  have "rev d = rev b @ rev a" using assms(2) by simp
  from no_tail_prefixD[OF 2 this] assms(3,4) have "\<not> prefix (rev a) (rev X)" by simp
  then show "\<not> suffix a X" by (simp add: suffix_to_prefix)
qed

lemma occ_insert:
  assumes c: "clean d X" and eq: "pre @ X @ post = u @ d @ v"
  shows "(\<exists>w. pre = u @ d @ w) \<or> (\<exists>w. u = pre @ X @ w)"
proof -
  have ns: "\<not> sublist d X" and ln: "length d < length X" using c by (simp_all add: clean_def)
  from eq consider
      (I) w where "pre = u @ w" "w @ X @ post = d @ v"
    | (II) w where "pre @ w = u" "X @ post = w @ d @ v"
    by (rule append_eq_cases)
  then show ?thesis
  proof cases
    case I
    from I(2) consider
        (a) w2 where "w = d @ w2"
      | (b) w2 where "w @ w2 = d" "X @ post = w2 @ v"
      by (rule append_eq_cases)
    then show ?thesis
    proof cases
      case a
      with I(1) show ?thesis by simp
    next
      case b
      show ?thesis
      proof (cases "w2 = []")
        case True
        with b I(1) show ?thesis by auto
      next
        case w2: False
        from b(2) consider
            (1) w3 where "X = w2 @ w3"
          | (2) w3 where "X @ w3 = w2"
          by (rule append_eq_cases)
        then show ?thesis
        proof cases
          case 1
          then have p: "prefix w2 X" by simp
          show ?thesis
          proof (cases "w = []")
            case True
            with b(1) p have "sublist d X" by auto
            with ns show ?thesis by simp
          next
            case False
            from cleanD(1)[OF c b(1)[symmetric] False w2] p show ?thesis by simp
          qed
        next
          case 2
          with b(1) have "length X \<le> length d" by (metis length_append le_add1 trans_le_add2)
          with ln show ?thesis by simp
        qed
      qed
    qed
  next
    case II
    from II(2) consider
        (a) w2 where "X = w @ w2" "w2 @ post = d @ v"
      | (b) w2 where "X @ w2 = w"
      by (rule append_eq_cases)
    then show ?thesis
    proof cases
      case a
      from a(2) consider
          (1) w3 where "w2 = d @ w3"
        | (2) w3 where "w2 @ w3 = d" "post = w3 @ v"
        by (rule append_eq_cases)
      then show ?thesis
      proof cases
        case 1
        with a(1) have "sublist d X" by (auto simp: sublist_def)
        with ns show ?thesis by simp
      next
        case 2
        show ?thesis
        proof (cases "w2 = []")
          case True
          with a(1) II(1) show ?thesis by auto
        next
          case w2: False
          have s: "suffix w2 X" using a(1) by (simp add: suffix_def)
          show ?thesis
          proof (cases "w3 = []")
            case True
            with 2(1) s have "sublist d X" by auto
            with ns show ?thesis by simp
          next
            case False
            from cleanD(2)[OF c 2(1)[symmetric] w2 False] s show ?thesis by simp
          qed
        qed
      qed
    next
      case b
      with II(1) show ?thesis by auto
    qed
  qed
qed

lemma clean_nonempty: "clean d X \<Longrightarrow> d \<noteq> []"
  by (auto simp: clean_def)


lemma only_at_insert_right:
  assumes c: "clean d X" and o: "only_at d pre (q1 @ q2)"
  shows "only_at d pre (q1 @ X @ q2)"
  unfolding only_at_iff
proof (intro conjI allI impI)
  show "d \<noteq> []" by (rule clean_nonempty[OF c])
next
  fix u v assume eq: "pre @ d @ q1 @ X @ q2 = u @ d @ v"
  then have "(pre @ d @ q1) @ X @ q2 = u @ d @ v" by simp
  from occ_insert[OF c this] show "u = pre"
  proof
    assume "\<exists>w. pre @ d @ q1 = u @ d @ w"
    then obtain w where "pre @ d @ q1 = u @ d @ w" ..
    then have "(pre @ d @ q1) @ q2 = (u @ d @ w) @ q2" by (rule arg_cong)
    then have "pre @ d @ q1 @ q2 = u @ d @ (w @ q2)" by simp
    with o show ?thesis unfolding only_at_iff by blast
  next
    assume "\<exists>w. u = (pre @ d @ q1) @ X @ w"
    then obtain w where w: "u = (pre @ d @ q1) @ X @ w" ..
    with eq have "q2 = w @ d @ v" by simp
    then have "pre @ d @ q1 @ q2 = (pre @ d @ q1 @ w) @ d @ v" by simp
    with o have "pre @ d @ q1 @ w = pre" unfolding only_at_iff by blast
    then have "d = []" by simp
    with clean_nonempty[OF c] show ?thesis by simp
  qed
qed



lemma sublist_map: "sublist xs ys \<Longrightarrow> sublist (map f xs) (map f ys)"
proof -
  assume "sublist xs ys"
  then obtain ps ss where "ys = ps @ xs @ ss" by (auto simp: sublist_def)
  then have "map f ys = map f ps @ map f xs @ map f ss" by simp
  then show ?thesis unfolding sublist_def by blast
qed

lemma no_tail_prefix_map:
  "no_tail_prefix (map f d) (map f X) \<Longrightarrow> no_tail_prefix d X"
proof (induction d)
  case Nil
  then show ?case by simp
next
  case (Cons c t)
  then show ?case using map_mono_prefix[of t X f] by auto
qed

lemma clean_hexfold:
  assumes "clean (map hexfold d) (map hexfold X)"
  shows "clean d X"
  unfolding clean_def
proof (intro conjI)
  show "\<not> sublist d X"
    using assms sublist_map[of d X hexfold] by (auto simp: clean_def)
  show "length d < length X" using assms by (simp add: clean_def)
  show "no_tail_prefix d X" using assms by (auto simp: clean_def intro: no_tail_prefix_map)
  have "no_tail_prefix (map hexfold (rev d)) (map hexfold (rev X))"
    using assms by (simp add: clean_def rev_map)
  then show "no_tail_prefix (rev d) (rev X)" by (rule no_tail_prefix_map)
qed

lemma hexfold_zero [simp]: "hexfold CHR ''0'' = CHR ''0''"
  by (simp add: hexfold_def)

lemma hexfold_run: "list_all upper_hex s \<Longrightarrow> map hexfold s = replicate (length s) CHR ''0''"
  by (induction s) (simp_all add: hexfold_def)

lemma hexfold_xcode_id: "xcode_id s \<Longrightarrow> map hexfold s = ''000000000000000000000000''"
proof -
  assume "xcode_id s"
  then have "map hexfold s = replicate 24 CHR ''0''"
    using hexfold_run[of s] by (simp add: xcode_id_def)
  also have "\<dots> = ''000000000000000000000000''" by code_simp
  finally show ?thesis .
qed




lemma hexfold_phase_block:
  "valid_ids b \<Longrightarrow> map hexfold (phase_block b) = map hexfold (phase_block zero_ids)"
  by (simp add: phase_block_def phase_plugin_ref_def phase_service_ref_def
      valid_ids_def hexfold_xcode_id zero_ids_def)







lemma clean0_phase:
  "list_all (\<lambda>d. clean (map hexfold d) (map hexfold (phase_block zero_ids)))
     [build_anchor, reference_anchor, group_anchor, fallback_anchor, phase_header]"
  by code_simp

lemma clean_phase_block:
  assumes "valid_ids b"
  shows "clean build_anchor (phase_block b)" "clean reference_anchor (phase_block b)"
    "clean group_anchor (phase_block b)" "clean fallback_anchor (phase_block b)"
    "clean phase_header (phase_block b)"
proof -
  have *: "clean (map hexfold d) (map hexfold (phase_block b))"
    if "d \<in> set [build_anchor, reference_anchor, group_anchor, fallback_anchor, phase_header]"
    for d
    using clean0_phase that unfolding hexfold_phase_block[OF assms] list_all_iff by blast
  show "clean build_anchor (phase_block b)" "clean reference_anchor (phase_block b)"
    "clean group_anchor (phase_block b)" "clean fallback_anchor (phase_block b)"
    "clean phase_header (phase_block b)"
    by (rule clean_hexfold, rule *, simp)+
qed



lemma guarded_single: "guarded [[Lit d]] d"
  by (simp add: guarded_def re_match_single_Lit)


















lemma modify_pbxproj_split:
  "modify_pbxproj project_path =
     io_bind (read_pbxproj project_path) (\<lambda>content.
     io_bind generate_xcode_id (\<lambda>file_plugin.
     io_bind generate_xcode_id (\<lambda>file_service.
     io_bind generate_xcode_id (\<lambda>build_plugin.
     io_bind generate_xcode_id (\<lambda>build_service.
       edit_and_write project_path content
         \<lparr>plugin = file_plugin, service = file_service\<rparr>
         \<lparr>plugin = build_plugin, service = build_service\<rparr>)))))"
  by (simp add: modify_pbxproj_def edit_and_write_def Let_def)

lemma io_bind_lift_Inl: "io_bind (io_lift (Inl e)) f w = (Inl e, w)"
  by (simp add: io_bind_def io_lift_def)

lemma edit_and_write_editor_raises:
  assumes "apply_editors content build_ids file_ids = Inl e"
  shows "\<exists>w'. edit_and_write project_path content file_ids build_ids w = (Inl e, w')
            \<and> disk w' = disk w \<and> faults w' = faults w
            \<and> filter is_write (events w') = filter is_write (events w)"
proof (cases "add_pbx_build_files content build_ids file_ids")
  case (Inl e1)
  with assms have "e1 = e" by (simp add: apply_editors_def)
  with Inl show ?thesis
    by (simp add: edit_and_write_def io_bind_print io_bind_lift_Inl is_write_def)
next
  case (Inr c1)
  with assms have "add_pbx_file_references c1 file_ids = Inl e"
    by (simp add: apply_editors_def split: sum.splits)
  with Inr show ?thesis
    by (simp add: edit_and_write_def io_bind_print io_bind_lift_Inl io_bind_lift_Inr is_write_def)
qed

lemma edit_and_write_runs:
  assumes "apply_editors content build_ids file_ids = Inr out"
  shows "edit_and_write project_path content file_ids build_ids w =
     (case faults w (project_path @ [''project.pbxproj'']) of
        NoFault \<Rightarrow>
          (Inr True,
           w\<lparr>disk := (disk w)(project_path @ [''project.pbxproj''] \<mapsto> Text out),
             events := events w @ progress_events file_ids build_ids
               @ [Wrote (project_path @ [''project.pbxproj'']) out,
                  Printed (''Updated '' @ str_path (project_path @ [''project.pbxproj'']))]\<rparr>)
      | OpenFails \<Rightarrow>
          (Inl WriteError, w\<lparr>events := events w @ progress_events file_ids build_ids\<rparr>)
      | WriteFails n \<Rightarrow>
          (Inl WriteError,
           w\<lparr>disk := (disk w)(project_path @ [''project.pbxproj''] \<mapsto> Text (take n out)),
             events := events w @ progress_events file_ids build_ids
               @ [Wrote (project_path @ [''project.pbxproj'']) (take n out)]\<rparr>))"
proof -
  from assms obtain c1 c2 where
    c1: "add_pbx_build_files content build_ids file_ids = Inr c1" and
    c2: "add_pbx_file_references c1 file_ids = Inr c2" and
    out: "out = add_to_sources_build_phase (add_to_runner_group c2 file_ids) build_ids"
    by (auto simp: apply_editors_def split: sum.splits)
  show ?thesis
    unfolding edit_and_write_def
    by (simp add: c1 c2 out[symmetric] io_bind_print io_bind_lift_Inr Let_def
        io_bind_def[of "write_pbxproj _ _"] write_pbxproj_def io_return_def
        progress_events_def split: fault.splits)
qed

lemma modify_pbxproj_readable:
  assumes "disk w (project_path @ [''project.pbxproj'']) = Some (Text t)"
  shows "modify_pbxproj project_path w =
         edit_and_write project_path (translate_newlines t) (run_file_ids w) (run_build_ids w)
           (w\<lparr>drawn := drawn w + 48\<rparr>)"
proof -
  have rd: "read_pbxproj project_path w = (Inr (translate_newlines t), w)"
    using assms by (simp add: read_pbxproj_def)
  show ?thesis
    unfolding modify_pbxproj_split
    by (simp add: io_bind_def[of "read_pbxproj project_path"] rd io_bind_generate
        run_file_ids_def run_build_ids_def nth_id_def add.commute[of "drawn w"])
qed

lemma sample_world_simps:
  "disk (sample_world en ft) [''Runner.xcodeproj'', ''project.pbxproj''] = en"
  "faults (sample_world en ft) p = ft"
  "events (sample_world en ft) = []"
  "drawn (sample_world en ft) = 0"
  by (simp_all add: sample_world_def)

lemma escaped_ids_raise:
  "apply_editors minimal_manifest sample_build_ids escaped_ids = Inl ReplacementError"
  by code_simp
















section \<open>The claims\<close>

text \<open>
  Claim C8. Every call of \<open>generate_xcode_id\<close> returns, and returns a string of exactly 24
  characters, each an upper-case hexadecimal digit. The string is computed from the next
  12 bytes of the random source and from nothing else; the call changes no other part of
  the state (it only uses up those 12 bytes) and reads neither the disk nor a buffer.
\<close>

theorem generate_xcode_id_shape:
  "(let s = map upper_char (hexlify (map (entropy w) [drawn w..<drawn w + 12]))
    in generate_xcode_id w = (Inr s, w\<lparr>drawn := drawn w + 12\<rparr>)
       \<and> length s = 24 \<and> list_all upper_hex s)"
  using hexlify_shape[of "map (entropy w) [drawn w..<drawn w + 12]"]
  by (simp add: generate_xcode_id_def token_hex_def token_bytes_def io_bind_def io_return_def Let_def)

text \<open>
  Claim C2. Whatever the buffer, an editor whose anchor pattern occurs nowhere in it
  returns the buffer unchanged and raises nothing. For the two section editors the anchor
  is a literal text, so absence is \<open>\<not> sublist\<close>; for the group editor neither the primary
  nor the fallback pattern may match at any position. The identifiers are the ones
  \<open>generate_xcode_id\<close> produces (\<open>valid_ids\<close>).
\<close>

theorem editors_unchanged_without_anchor:
  assumes "valid_ids file_ids" and "valid_ids build_ids"
  shows "(\<not> sublist ''/* End PBXFileReference section */'' content \<longrightarrow>
            add_pbx_file_references content file_ids = Inr content)
       \<and> (\<not> sublist ''/* End PBXBuildFile section */'' content \<longrightarrow>
            add_pbx_build_files content build_ids file_ids = Inr content)
       \<and> (\<not> occurs runner_group_pattern content \<and> \<not> occurs alt_pattern content \<longrightarrow>
            add_to_runner_group content file_ids = content)
       \<and> (\<not> occurs sources_phase_pattern content \<longrightarrow>
            add_to_sources_build_phase content build_ids = content)"
proof (intro conjI impI)
  assume "\<not> sublist ''/* End PBXFileReference section */'' content"
  then show "add_pbx_file_references content file_ids = Inr content"
    by (simp add: add_pbx_file_references_eq[OF assms(1)] file_reference_pattern_def
        literal_editor_absent del: group_text.simps)
next
  assume "\<not> sublist ''/* End PBXBuildFile section */'' content"
  then show "add_pbx_build_files content build_ids file_ids = Inr content"
    by (simp add: add_pbx_build_files_eq[OF assms(2,1)] build_file_pattern_def
        literal_editor_absent del: group_text.simps)
next
  assume "\<not> occurs runner_group_pattern content \<and> \<not> occurs alt_pattern content"
  then show "add_to_runner_group content file_ids = content"
    by (simp add: add_to_runner_group_def re_sub_absent del: group_text.simps)
next
  assume "\<not> occurs sources_phase_pattern content"
  then show "add_to_sources_build_phase content build_ids = content"
    by (simp add: add_to_sources_build_phase_def re_sub_absent)
qed

text \<open>
  The hypotheses of C2 hold for a text without any anchor and a pair of identifiers.
\<close>

theorem editors_unchanged_without_anchor_witness:
  "valid_ids sample_file_ids \<and> valid_ids sample_build_ids
   \<and> \<not> sublist ''/* End PBXFileReference section */'' anchorless_text
   \<and> \<not> sublist ''/* End PBXBuildFile section */'' anchorless_text
   \<and> \<not> occurs runner_group_pattern anchorless_text
   \<and> \<not> occurs alt_pattern anchorless_text
   \<and> \<not> occurs sources_phase_pattern anchorless_text
   \<and> add_pbx_file_references anchorless_text sample_file_ids = Inr anchorless_text
   \<and> add_pbx_build_files anchorless_text sample_build_ids sample_file_ids = Inr anchorless_text
   \<and> add_to_runner_group anchorless_text sample_file_ids = anchorless_text
   \<and> add_to_sources_build_phase anchorless_text sample_build_ids = anchorless_text"
proof -
  have 1: "\<not> sublist ''/* End PBXFileReference section */'' anchorless_text" by code_simp
  have 2: "\<not> sublist ''/* End PBXBuildFile section */'' anchorless_text" by code_simp
  have 3: "\<not> occurs runner_group_pattern anchorless_text" by code_simp
  have 4: "\<not> occurs alt_pattern anchorless_text" by code_simp
  have 5: "\<not> occurs sources_phase_pattern anchorless_text" by code_simp
  show ?thesis
    using editors_unchanged_without_anchor[OF valid_sample_file_ids valid_sample_build_ids,
        of anchorless_text] 1 2 3 4 5 valid_sample_file_ids valid_sample_build_ids
    by blast
qed

text \<open>
  Claim C10. Every editor only adds text: the input is a subsequence of the output (every
  character is kept, in its order), so the output is never shorter, and the two section
  editors raise nothing.
\<close>

theorem editors_only_add_text:
  assumes "valid_ids file_ids" and "valid_ids build_ids"
  shows "(\<exists>out. add_pbx_file_references content file_ids = Inr out
            \<and> subseq content out \<and> length content \<le> length out)
       \<and> (\<exists>out. add_pbx_build_files content build_ids file_ids = Inr out
            \<and> subseq content out \<and> length content \<le> length out)
       \<and> subseq content (add_to_runner_group content file_ids)
       \<and> length content \<le> length (add_to_runner_group content file_ids)
       \<and> subseq content (add_to_sources_build_phase content build_ids)
       \<and> length content \<le> length (add_to_sources_build_phase content build_ids)"
proof -
  have g: "subseq content (add_to_runner_group content file_ids)"
    using primary_subseq[of content file_ids] alt_subseq[of content file_ids]
    by (simp add: add_to_runner_group_def Let_def del: group_text.simps)
  have p: "subseq content (add_to_sources_build_phase content build_ids)"
    by (simp add: add_to_sources_build_phase_def phase_subseq)
  have r: "subseq content
     (re_sub file_reference_pattern (\<lambda>gs. reference_block file_ids @ group_text gs 1) content)"
    unfolding file_reference_pattern_def by (rule literal_editor_subseq)
  have b: "subseq content
     (re_sub build_file_pattern (\<lambda>gs. build_block build_ids file_ids @ group_text gs 1) content)"
    unfolding build_file_pattern_def by (rule literal_editor_subseq)
  show ?thesis
    using g p r b list_emb_length[OF g] list_emb_length[OF p] list_emb_length[OF r]
      list_emb_length[OF b]
    by (simp add: add_pbx_file_references_eq[OF assms(1)]
        add_pbx_build_files_eq[OF assms(2,1)] del: group_text.simps)
qed

text \<open>
  C10 at the minimal manifest.
\<close>

theorem editors_only_add_text_witness:
  "valid_ids sample_file_ids \<and> valid_ids sample_build_ids
   \<and> (\<exists>out. add_pbx_file_references minimal_manifest sample_file_ids = Inr out
            \<and> subseq minimal_manifest out \<and> length minimal_manifest \<le> length out)
   \<and> (\<exists>out. add_pbx_build_files minimal_manifest sample_build_ids sample_file_ids = Inr out
            \<and> subseq minimal_manifest out \<and> length minimal_manifest \<le> length out)
   \<and> subseq minimal_manifest (add_to_runner_group minimal_manifest sample_file_ids)
   \<and> subseq minimal_manifest (add_to_sources_build_phase minimal_manifest sample_build_ids)"
  using editors_only_add_text[OF valid_sample_file_ids valid_sample_build_ids, of minimal_manifest]
    valid_sample_file_ids valid_sample_build_ids
  by blast

text \<open>
  Claim C3, as stated, fails: \<open>re.sub\<close> is called without \<open>count\<close>, so it replaces
  every match and not only the first. In a buffer that holds the section-end anchor twice,
  the entries are inserted before both occurrences.
\<close>

theorem substitution_not_only_first_counterexample:
  "add_pbx_file_references two_anchor_text sample_file_ids =
     Inr (reference_plugin_entry sample_file_ids @ reference_service_entry sample_file_ids
          @ ''/* End PBXFileReference section */'' @ [NL]
          @ reference_plugin_entry sample_file_ids @ reference_service_entry sample_file_ids
          @ ''/* End PBXFileReference section */'' @ [NL])
   \<and> add_pbx_file_references two_anchor_text sample_file_ids \<noteq>
     Inr (reference_plugin_entry sample_file_ids @ reference_service_entry sample_file_ids
          @ ''/* End PBXFileReference section */'' @ [NL]
          @ ''/* End PBXFileReference section */'' @ [NL])"
proof -
  have n: "\<not> sublist ''/* End PBXFileReference section */'' [NL]" by code_simp
  have 0: "\<not> sublist ''/* End PBXFileReference section */''
              ([] @ ''/* End PBXFileReference section *'')" by code_simp
  have 1: "\<not> sublist ''/* End PBXFileReference section */''
              ([NL] @ ''/* End PBXFileReference section *'')" by code_simp
  have e: "add_pbx_file_references [NL] sample_file_ids = Inr [NL]"
    using n by (simp add: add_pbx_file_references_eq[OF valid_sample_file_ids]
        file_reference_pattern_def literal_editor_absent del: group_text.simps)
  from file_references_first[OF valid_sample_file_ids 1, of "[NL]"] e
  have 2: "add_pbx_file_references ([NL] @ ''/* End PBXFileReference section */'' @ [NL])
             sample_file_ids
           = Inr ([NL] @ reference_block sample_file_ids
                  @ ''/* End PBXFileReference section */'' @ [NL])"
    by auto
  from file_references_first[OF valid_sample_file_ids 0,
      of "[NL] @ ''/* End PBXFileReference section */'' @ [NL]"] 2
  have 3: "add_pbx_file_references two_anchor_text sample_file_ids
           = Inr (reference_block sample_file_ids @ ''/* End PBXFileReference section */''
                  @ [NL] @ reference_block sample_file_ids
                  @ ''/* End PBXFileReference section */'' @ [NL])"
    by (auto simp: two_anchor_text_def)
  have ne: "reference_block sample_file_ids \<noteq> []"
    by (simp add: reference_block_def reference_plugin_entry_def)
  show ?thesis
    unfolding 3 using ne by (simp add: reference_block_def)
qed

text \<open>
  Claim C3, amended. When the anchor occurs in the buffer, the two section editors insert
  their entries before its first occurrence and then treat the text behind that
  occurrence in the same way: if no occurrence of the anchor starts inside \<open>pre\<close>, the
  output on \<open>pre @ anchor @ rest\<close> is \<open>pre @ entries @ anchor @ out\<close>, where \<open>out\<close> is the
  editor's output on \<open>rest\<close>. So the insertion happens at every match that the scan from
  left to right finds, once for each.
\<close>

theorem section_editors_insert_at_every_match:
  assumes "valid_ids file_ids" and "valid_ids build_ids"
  shows "(\<not> sublist ''/* End PBXFileReference section */''
              (pre @ ''/* End PBXFileReference section *'') \<longrightarrow>
          (\<exists>out. add_pbx_file_references rest file_ids = Inr out
             \<and> add_pbx_file_references (pre @ ''/* End PBXFileReference section */'' @ rest)
                  file_ids
                = Inr (pre @ reference_plugin_entry file_ids @ reference_service_entry file_ids
                       @ ''/* End PBXFileReference section */'' @ out)))
       \<and> (\<not> sublist ''/* End PBXBuildFile section */''
              (pre @ ''/* End PBXBuildFile section *'') \<longrightarrow>
          (\<exists>out. add_pbx_build_files rest build_ids file_ids = Inr out
             \<and> add_pbx_build_files (pre @ ''/* End PBXBuildFile section */'' @ rest)
                  build_ids file_ids
                = Inr (pre @ build_plugin_entry build_ids file_ids
                       @ build_service_entry build_ids file_ids
                       @ ''/* End PBXBuildFile section */'' @ out)))"
  using file_references_first[OF assms(1), of pre rest]
    build_files_first[OF assms(2,1), of pre rest]
  by (simp add: reference_block_def build_block_def)

text \<open>
  The amended C3 at a buffer with three occurrences of the anchor.
\<close>

theorem section_editors_insert_at_every_match_witness:
  "valid_ids sample_file_ids \<and> valid_ids sample_build_ids
   \<and> \<not> sublist ''/* End PBXFileReference section */''
              (''x'' @ ''/* End PBXFileReference section *'')
   \<and> \<not> sublist ''/* End PBXBuildFile section */''
              (''x'' @ ''/* End PBXBuildFile section *'')
   \<and> (\<exists>out. add_pbx_file_references two_anchor_text sample_file_ids = Inr out
         \<and> add_pbx_file_references
              (''x'' @ ''/* End PBXFileReference section */'' @ two_anchor_text) sample_file_ids
            = Inr (''x'' @ reference_plugin_entry sample_file_ids
                   @ reference_service_entry sample_file_ids
                   @ ''/* End PBXFileReference section */'' @ out))
   \<and> (\<exists>out. add_pbx_build_files two_anchor_text sample_build_ids sample_file_ids = Inr out
         \<and> add_pbx_build_files
              (''x'' @ ''/* End PBXBuildFile section */'' @ two_anchor_text)
              sample_build_ids sample_file_ids
            = Inr (''x'' @ build_plugin_entry sample_build_ids sample_file_ids
                   @ build_service_entry sample_build_ids sample_file_ids
                   @ ''/* End PBXBuildFile section */'' @ out))"
proof -
  have 1: "\<not> sublist ''/* End PBXFileReference section */''
              (''x'' @ ''/* End PBXFileReference section *'')" by code_simp
  have 2: "\<not> sublist ''/* End PBXBuildFile section */''
              (''x'' @ ''/* End PBXBuildFile section *'')" by code_simp
  show ?thesis
    using section_editors_insert_at_every_match[OF valid_sample_file_ids valid_sample_build_ids,
        of "''x''" two_anchor_text] 1 2 valid_sample_file_ids valid_sample_build_ids
    by blast
qed

text \<open>
  Claim C6. The group editor tries the fallback pattern exactly when the primary pattern
  changed nothing, that is, when it matches nowhere. First conjunct: where the primary
  pattern matches, the two entries go between the sentinel line and the closing delimiter
  and the fallback is not tried. Second conjunct: when the primary pattern matches
  nowhere and the buffer holds a child entry (four tabs, a 24-character upper-case
  hexadecimal token, a comment without \<open>*\<close>) directly before the closing delimiter and
  the \<open>path = Runner;\<close> and \<open>sourceTree\<close> lines, the same two entries are inserted
  after that child entry and before the closing delimiter, and the text behind is
  treated in the same way. Third conjunct: when neither pattern matches, the buffer is
  returned unchanged.
\<close>

theorem fallback_after_primary_miss:
  "(misses runner_group_pattern pre (sentinel_line @ group_closing @ rest)
      \<and> \<not> occurs runner_group_pattern rest \<longrightarrow>
    add_to_runner_group (pre @ sentinel_line @ group_closing @ rest) file_ids
      = pre @ sentinel_line @ group_plugin_ref file_ids @ group_service_ref file_ids
          @ group_closing @ rest)
 \<and> (\<not> occurs runner_group_pattern
          (pre @ child_entry token label @ group_closing @ runner_tail @ rest)
      \<and> xcode_id token \<and> label \<noteq> [] \<and> CHR ''*'' \<notin> set label
      \<and> misses alt_pattern pre (child_entry token label @ group_closing @ runner_tail @ rest)
      \<longrightarrow>
    add_to_runner_group (pre @ child_entry token label @ group_closing @ runner_tail @ rest)
        file_ids
      = pre @ child_entry token label @ group_plugin_ref file_ids @ group_service_ref file_ids
          @ group_closing @ runner_tail @ add_to_runner_group rest file_ids)
 \<and> (\<not> occurs runner_group_pattern content \<and> \<not> occurs alt_pattern content \<longrightarrow>
    add_to_runner_group content file_ids = content)"
proof (intro conjI impI)
  assume a: "misses runner_group_pattern pre (sentinel_line @ group_closing @ rest)
      \<and> \<not> occurs runner_group_pattern rest"
  let ?in = "pre @ sentinel_line @ group_closing @ rest"
  let ?out = "pre @ sentinel_line @ group_block file_ids @ group_closing @ rest"
  have r: "re_sub runner_group_pattern (runner_group_replacer file_ids) ?in = ?out"
    using primary_first[of pre rest file_ids] a by (simp add: re_sub_absent)
  have "length ?out \<noteq> length ?in" using group_block_nonempty[of file_ids] by simp
  then have ne: "?out \<noteq> ?in" by metis
  have "add_to_runner_group ?in file_ids = ?out"
    unfolding add_to_runner_group_def Let_def r using ne by (simp only: if_False)
  then show "add_to_runner_group ?in file_ids
      = pre @ sentinel_line @ group_plugin_ref file_ids @ group_service_ref file_ids
          @ group_closing @ rest"
    by (simp add: group_block_def)
next
  assume a: "\<not> occurs runner_group_pattern
          (pre @ child_entry token label @ group_closing @ runner_tail @ rest)
      \<and> xcode_id token \<and> label \<noteq> [] \<and> CHR ''*'' \<notin> set label
      \<and> misses alt_pattern pre (child_entry token label @ group_closing @ runner_tail @ rest)"
  have "\<not> occurs runner_group_pattern rest"
  proof
    assume "occurs runner_group_pattern rest"
    then have "occurs runner_group_pattern
       ((pre @ child_entry token label @ group_closing @ runner_tail) @ rest)"
      by (rule occurs_append)
    with a show False by simp
  qed
  note tail = add_to_runner_group_no_primary[OF this, of file_ids]
  from a have np: "\<not> occurs runner_group_pattern
          (pre @ child_entry token label @ group_closing @ runner_tail @ rest)" by blast
  show "add_to_runner_group (pre @ child_entry token label @ group_closing @ runner_tail @ rest)
        file_ids
      = pre @ child_entry token label @ group_plugin_ref file_ids @ group_service_ref file_ids
          @ group_closing @ runner_tail @ add_to_runner_group rest file_ids"
    unfolding add_to_runner_group_no_primary[OF np] tail
    using alt_first[of token label pre rest file_ids] a by (simp add: group_block_def)
next
  assume "\<not> occurs runner_group_pattern content \<and> \<not> occurs alt_pattern content"
  then show "add_to_runner_group content file_ids = content"
    by (simp add: add_to_runner_group_no_primary re_sub_absent)
qed

text \<open>
  C6 at a Runner group that ends with the sentinel entry, at one that ends with another
  child, and at a text without a group.
\<close>

theorem fallback_after_primary_miss_witness:
  "misses runner_group_pattern (children_head @ [TAB, TAB, TAB, TAB])
        (sentinel_line @ group_closing @ group_end)
   \<and> \<not> occurs runner_group_pattern group_end
   \<and> add_to_runner_group
         ((children_head @ [TAB, TAB, TAB, TAB]) @ sentinel_line @ group_closing @ group_end)
         sample_file_ids
       = (children_head @ [TAB, TAB, TAB, TAB]) @ sentinel_line
           @ group_plugin_ref sample_file_ids @ group_service_ref sample_file_ids
           @ group_closing @ group_end
   \<and> \<not> occurs runner_group_pattern
          (children_head @ child_entry ''97C146FA1CF9000F007C117D'' ''Main.storyboard''
           @ group_closing @ runner_tail @ group_end)
   \<and> xcode_id ''97C146FA1CF9000F007C117D'' \<and> ''Main.storyboard'' \<noteq> []
   \<and> CHR ''*'' \<notin> set ''Main.storyboard''
   \<and> misses alt_pattern children_head
        (child_entry ''97C146FA1CF9000F007C117D'' ''Main.storyboard''
         @ group_closing @ runner_tail @ group_end)
   \<and> add_to_runner_group
         (children_head @ child_entry ''97C146FA1CF9000F007C117D'' ''Main.storyboard''
          @ group_closing @ runner_tail @ group_end) sample_file_ids
       = children_head @ child_entry ''97C146FA1CF9000F007C117D'' ''Main.storyboard''
           @ group_plugin_ref sample_file_ids @ group_service_ref sample_file_ids
           @ group_closing @ runner_tail @ add_to_runner_group group_end sample_file_ids
   \<and> \<not> occurs runner_group_pattern anchorless_text \<and> \<not> occurs alt_pattern anchorless_text
   \<and> add_to_runner_group anchorless_text sample_file_ids = anchorless_text"
proof -
  have 1: "misses runner_group_pattern (children_head @ [TAB, TAB, TAB, TAB])
        (sentinel_line @ group_closing @ group_end)" by code_simp
  have 2: "\<not> occurs runner_group_pattern group_end" by code_simp
  have 3: "\<not> occurs runner_group_pattern
          (children_head @ child_entry ''97C146FA1CF9000F007C117D'' ''Main.storyboard''
           @ group_closing @ runner_tail @ group_end)" by code_simp
  have 4: "xcode_id ''97C146FA1CF9000F007C117D''" by code_simp
  have 5: "''Main.storyboard'' \<noteq> [] \<and> CHR ''*'' \<notin> set ''Main.storyboard''" by simp
  have 6: "misses alt_pattern children_head
        (child_entry ''97C146FA1CF9000F007C117D'' ''Main.storyboard''
         @ group_closing @ runner_tail @ group_end)" by code_simp
  have 7: "\<not> occurs runner_group_pattern anchorless_text" by code_simp
  have 8: "\<not> occurs alt_pattern anchorless_text" by code_simp
  show ?thesis
    using fallback_after_primary_miss[of "children_head @ [TAB, TAB, TAB, TAB]" group_end
        sample_file_ids "[]" "[]" anchorless_text]
      fallback_after_primary_miss[of children_head group_end sample_file_ids
        "''97C146FA1CF9000F007C117D''" "''Main.storyboard''" anchorless_text]
      1 2 3 4 5 6 7 8
    by blast
qed




text \<open>
  Claim C9. A run of \<open>modify_pbxproj\<close> reads the manifest, draws the four identifiers,
  and then runs \<open>edit_and_write\<close> (last conjunct). If the manifest is missing or
  cannot be read, the run raises and the state is unchanged: nothing is written. If it
  can be read, the four editors succeed on the text read (the generated identifiers
  contain no backslash) and \<open>write_pbxproj\<close> is called exactly once, after the progress
  lines of all four editors, with the editors' result: the run's events are the ten
  progress lines, then that one write, then the closing line. If the write itself fails
  the run raises \<open>WriteError\<close>; the file is untouched when it could not be opened and
  holds a prefix of the new text when the write broke off, which is the only way the
  file can be left partly written. Fourth conjunct: whenever an editor raises (which
  needs identifiers that \<open>generate_xcode_id\<close> cannot produce), \<open>edit_and_write\<close> raises
  the same error, the disk is unchanged and no write event is added.
\<close>

theorem manifest_written_once_after_editors:
  "(disk w (project_path @ [''project.pbxproj'']) = None \<longrightarrow>
      modify_pbxproj project_path w = (Inl FileNotFoundError, w))
 \<and> (disk w (project_path @ [''project.pbxproj'']) = Some Unreadable \<longrightarrow>
      modify_pbxproj project_path w = (Inl ReadError, w))
 \<and> (disk w (project_path @ [''project.pbxproj'']) = Some (Text t) \<longrightarrow>
      (\<exists>out. apply_editors (translate_newlines t) (run_build_ids w) (run_file_ids w) = Inr out
        \<and> modify_pbxproj project_path w =
           (case faults w (project_path @ [''project.pbxproj'']) of
              NoFault \<Rightarrow>
                (Inr True,
                 w\<lparr>drawn := drawn w + 48,
                   disk := (disk w)(project_path @ [''project.pbxproj''] \<mapsto> Text out),
                   events := events w
                     @ progress_events (run_file_ids w) (run_build_ids w)
                     @ [Wrote (project_path @ [''project.pbxproj'']) out,
                        Printed (''Updated ''
                                 @ str_path (project_path @ [''project.pbxproj'']))]\<rparr>)
            | OpenFails \<Rightarrow>
                (Inl WriteError,
                 w\<lparr>drawn := drawn w + 48,
                   events := events w
                     @ progress_events (run_file_ids w) (run_build_ids w)\<rparr>)
            | WriteFails n \<Rightarrow>
                (Inl WriteError,
                 w\<lparr>drawn := drawn w + 48,
                   disk := (disk w)(project_path @ [''project.pbxproj'']
                                     \<mapsto> Text (take n out)),
                   events := events w
                     @ progress_events (run_file_ids w) (run_build_ids w)
                     @ [Wrote (project_path @ [''project.pbxproj'']) (take n out)]\<rparr>))))
 \<and> (apply_editors content build_ids file_ids = Inl e \<longrightarrow>
      (\<exists>w'. edit_and_write project_path content file_ids build_ids w = (Inl e, w')
         \<and> disk w' = disk w
         \<and> filter is_write (events w') = filter is_write (events w)))
 \<and> modify_pbxproj project_path =
      io_bind (read_pbxproj project_path) (\<lambda>content.
      io_bind generate_xcode_id (\<lambda>file_plugin.
      io_bind generate_xcode_id (\<lambda>file_service.
      io_bind generate_xcode_id (\<lambda>build_plugin.
      io_bind generate_xcode_id (\<lambda>build_service.
        edit_and_write project_path content
          \<lparr>plugin = file_plugin, service = file_service\<rparr>
          \<lparr>plugin = build_plugin, service = build_service\<rparr>)))))"
proof (intro conjI impI)
  assume "disk w (project_path @ [''project.pbxproj'']) = None"
  then show "modify_pbxproj project_path w = (Inl FileNotFoundError, w)"
    by (rule modify_pbxproj_missing)
next
  assume "disk w (project_path @ [''project.pbxproj'']) = Some Unreadable"
  then show "modify_pbxproj project_path w = (Inl ReadError, w)"
    by (rule modify_pbxproj_unreadable)
next
  assume d: "disk w (project_path @ [''project.pbxproj'']) = Some (Text t)"
  from apply_editors_total[OF valid_run_ids(2) valid_run_ids(1)]
  obtain out where out:
    "apply_editors (translate_newlines t) (run_build_ids w) (run_file_ids w) = Inr out"
    by blast
  have "modify_pbxproj project_path w =
           (case faults w (project_path @ [''project.pbxproj'']) of
              NoFault \<Rightarrow>
                (Inr True,
                 w\<lparr>drawn := drawn w + 48,
                   disk := (disk w)(project_path @ [''project.pbxproj''] \<mapsto> Text out),
                   events := events w
                     @ progress_events (run_file_ids w) (run_build_ids w)
                     @ [Wrote (project_path @ [''project.pbxproj'']) out,
                        Printed (''Updated ''
                                 @ str_path (project_path @ [''project.pbxproj'']))]\<rparr>)
            | OpenFails \<Rightarrow>
                (Inl WriteError,
                 w\<lparr>drawn := drawn w + 48,
                   events := events w
                     @ progress_events (run_file_ids w) (run_build_ids w)\<rparr>)
            | WriteFails n \<Rightarrow>
                (Inl WriteError,
                 w\<lparr>drawn := drawn w + 48,
                   disk := (disk w)(project_path @ [''project.pbxproj'']
                                     \<mapsto> Text (take n out)),
                   events := events w
                     @ progress_events (run_file_ids w) (run_build_ids w)
                     @ [Wrote (project_path @ [''project.pbxproj'']) (take n out)]\<rparr>))"
    unfolding modify_pbxproj_readable[OF d] edit_and_write_runs[OF out]
    by (simp split: fault.splits)
  with out show "\<exists>out. apply_editors (translate_newlines t) (run_build_ids w) (run_file_ids w)
        = Inr out \<and> modify_pbxproj project_path w =
           (case faults w (project_path @ [''project.pbxproj'']) of
              NoFault \<Rightarrow>
                (Inr True,
                 w\<lparr>drawn := drawn w + 48,
                   disk := (disk w)(project_path @ [''project.pbxproj''] \<mapsto> Text out),
                   events := events w
                     @ progress_events (run_file_ids w) (run_build_ids w)
                     @ [Wrote (project_path @ [''project.pbxproj'']) out,
                        Printed (''Updated ''
                                 @ str_path (project_path @ [''project.pbxproj'']))]\<rparr>)
            | OpenFails \<Rightarrow>
                (Inl WriteError,
                 w\<lparr>drawn := drawn w + 48,
                   events := events w
                     @ progress_events (run_file_ids w) (run_build_ids w)\<rparr>)
            | WriteFails n \<Rightarrow>
                (Inl WriteError,
                 w\<lparr>drawn := drawn w + 48,
                   disk := (disk w)(project_path @ [''project.pbxproj'']
                                     \<mapsto> Text (take n out)),
                   events := events w
                     @ progress_events (run_file_ids w) (run_build_ids w)
                     @ [Wrote (project_path @ [''project.pbxproj'']) (take n out)]\<rparr>))"
    by blast
next
  assume "apply_editors content build_ids file_ids = Inl e"
  from edit_and_write_editor_raises[OF this, of project_path w]
  show "\<exists>w'. edit_and_write project_path content file_ids build_ids w = (Inl e, w')
         \<and> disk w' = disk w
         \<and> filter is_write (events w') = filter is_write (events w)"
    by blast
next
  show "modify_pbxproj project_path =
      io_bind (read_pbxproj project_path) (\<lambda>content.
      io_bind generate_xcode_id (\<lambda>file_plugin.
      io_bind generate_xcode_id (\<lambda>file_service.
      io_bind generate_xcode_id (\<lambda>build_plugin.
      io_bind generate_xcode_id (\<lambda>build_service.
        edit_and_write project_path content
          \<lparr>plugin = file_plugin, service = file_service\<rparr>
          \<lparr>plugin = build_plugin, service = build_service\<rparr>)))))"
    by (rule modify_pbxproj_split)
qed

text \<open>
  C9 at a missing manifest, an unreadable one, the minimal manifest with a write that
  succeeds, one that cannot open the file, and one that breaks off after 100 characters,
  and at identifiers with a backslash, for which the editors raise.
\<close>

theorem manifest_written_once_after_editors_witness:
  "disk (sample_world None NoFault) ([''Runner.xcodeproj''] @ [''project.pbxproj'']) = None
   \<and> modify_pbxproj [''Runner.xcodeproj''] (sample_world None NoFault)
       = (Inl FileNotFoundError, sample_world None NoFault)
   \<and> disk (sample_world (Some Unreadable) NoFault)
         ([''Runner.xcodeproj''] @ [''project.pbxproj'']) = Some Unreadable
   \<and> modify_pbxproj [''Runner.xcodeproj''] (sample_world (Some Unreadable) NoFault)
       = (Inl ReadError, sample_world (Some Unreadable) NoFault)
   \<and> disk (sample_world (Some (Text minimal_manifest)) NoFault)
         ([''Runner.xcodeproj''] @ [''project.pbxproj'']) = Some (Text minimal_manifest)
   \<and> (\<exists>out. apply_editors (translate_newlines minimal_manifest)
                (run_build_ids (sample_world (Some (Text minimal_manifest)) NoFault))
                (run_file_ids (sample_world (Some (Text minimal_manifest)) NoFault)) = Inr out
         \<and> modify_pbxproj [''Runner.xcodeproj'']
              (sample_world (Some (Text minimal_manifest)) NoFault)
            = (Inr True,
               (sample_world (Some (Text minimal_manifest)) NoFault)
                 \<lparr>drawn := 48,
                  disk := (disk (sample_world (Some (Text minimal_manifest)) NoFault))
                            ([''Runner.xcodeproj''] @ [''project.pbxproj''] \<mapsto> Text out),
                  events :=
                    progress_events
                      (run_file_ids (sample_world (Some (Text minimal_manifest)) NoFault))
                      (run_build_ids (sample_world (Some (Text minimal_manifest)) NoFault))
                    @ [Wrote ([''Runner.xcodeproj''] @ [''project.pbxproj'']) out,
                       Printed (''Updated ''
                                @ str_path ([''Runner.xcodeproj''] @ [''project.pbxproj'']))]\<rparr>))
   \<and> (modify_pbxproj [''Runner.xcodeproj'']
              (sample_world (Some (Text minimal_manifest)) OpenFails)
            = (Inl WriteError,
               (sample_world (Some (Text minimal_manifest)) OpenFails)
                 \<lparr>drawn := 48,
                  events :=
                    progress_events
                      (run_file_ids (sample_world (Some (Text minimal_manifest)) OpenFails))
                      (run_build_ids (sample_world (Some (Text minimal_manifest)) OpenFails))\<rparr>))
   \<and> (\<exists>out. apply_editors (translate_newlines minimal_manifest)
                (run_build_ids (sample_world (Some (Text minimal_manifest)) (WriteFails 100)))
                (run_file_ids (sample_world (Some (Text minimal_manifest)) (WriteFails 100)))
              = Inr out
         \<and> modify_pbxproj [''Runner.xcodeproj'']
              (sample_world (Some (Text minimal_manifest)) (WriteFails 100))
            = (Inl WriteError,
               (sample_world (Some (Text minimal_manifest)) (WriteFails 100))
                 \<lparr>drawn := 48,
                  disk := (disk (sample_world (Some (Text minimal_manifest)) (WriteFails 100)))
                            ([''Runner.xcodeproj''] @ [''project.pbxproj'']
                               \<mapsto> Text (take 100 out)),
                  events :=
                    progress_events
                      (run_file_ids (sample_world (Some (Text minimal_manifest)) (WriteFails 100)))
                      (run_build_ids (sample_world (Some (Text minimal_manifest)) (WriteFails 100)))
                    @ [Wrote ([''Runner.xcodeproj''] @ [''project.pbxproj''])
                         (take 100 out)]\<rparr>))
   \<and> apply_editors minimal_manifest sample_build_ids escaped_ids = Inl ReplacementError
   \<and> (\<exists>w'. edit_and_write [''Runner.xcodeproj''] minimal_manifest escaped_ids sample_build_ids
               (sample_world (Some (Text minimal_manifest)) NoFault)
             = (Inl ReplacementError, w')
         \<and> disk w' = disk (sample_world (Some (Text minimal_manifest)) NoFault)
         \<and> filter is_write (events w')
            = filter is_write (events (sample_world (Some (Text minimal_manifest)) NoFault)))"
proof -
  have 1: "modify_pbxproj [''Runner.xcodeproj''] (sample_world None NoFault)
       = (Inl FileNotFoundError, sample_world None NoFault)"
    using manifest_written_once_after_editors[where w = "sample_world None NoFault"
        and project_path = "[''Runner.xcodeproj'']", THEN conjunct1]
    by (simp add: sample_world_simps)
  have 2: "modify_pbxproj [''Runner.xcodeproj''] (sample_world (Some Unreadable) NoFault)
       = (Inl ReadError, sample_world (Some Unreadable) NoFault)"
    using manifest_written_once_after_editors[where w = "sample_world (Some Unreadable) NoFault"
        and project_path = "[''Runner.xcodeproj'']", THEN conjunct2, THEN conjunct1]
    by (simp add: sample_world_simps)
  have 3: "\<exists>out. apply_editors (translate_newlines minimal_manifest)
                (run_build_ids (sample_world (Some (Text minimal_manifest)) ft))
                (run_file_ids (sample_world (Some (Text minimal_manifest)) ft)) = Inr out
         \<and> modify_pbxproj [''Runner.xcodeproj'']
              (sample_world (Some (Text minimal_manifest)) ft)
            = (case ft of
              NoFault \<Rightarrow>
                (Inr True,
                 (sample_world (Some (Text minimal_manifest)) ft)\<lparr>drawn := 48,
                   disk := (disk (sample_world (Some (Text minimal_manifest)) ft))
                      ([''Runner.xcodeproj''] @ [''project.pbxproj''] \<mapsto> Text out),
                   events := 
                     progress_events (run_file_ids (sample_world (Some (Text minimal_manifest)) ft))
                        (run_build_ids (sample_world (Some (Text minimal_manifest)) ft))
                     @ [Wrote ([''Runner.xcodeproj''] @ [''project.pbxproj'']) out,
                        Printed (''Updated ''
                                 @ str_path ([''Runner.xcodeproj''] @ [''project.pbxproj'']))]\<rparr>)
            | OpenFails \<Rightarrow>
                (Inl WriteError,
                 (sample_world (Some (Text minimal_manifest)) ft)\<lparr>drawn := 48,
                   events := 
                     progress_events (run_file_ids (sample_world (Some (Text minimal_manifest)) ft))
                        (run_build_ids (sample_world (Some (Text minimal_manifest)) ft))\<rparr>)
            | WriteFails n \<Rightarrow>
                (Inl WriteError,
                 (sample_world (Some (Text minimal_manifest)) ft)\<lparr>drawn := 48,
                   disk := (disk (sample_world (Some (Text minimal_manifest)) ft))
                       ([''Runner.xcodeproj''] @ [''project.pbxproj'']
                                     \<mapsto> Text (take n out)),
                   events := 
                     progress_events (run_file_ids (sample_world (Some (Text minimal_manifest)) ft))
                        (run_build_ids (sample_world (Some (Text minimal_manifest)) ft))
                     @ [Wrote ([''Runner.xcodeproj''] @ [''project.pbxproj'']) (take n out)]\<rparr>))"
    for ft
    by (insert manifest_written_once_after_editors[where w = "sample_world (Some (Text minimal_manifest)) ft"
        and project_path = "[''Runner.xcodeproj'']" and t = minimal_manifest,
        THEN conjunct2, THEN conjunct2, THEN conjunct1], cases ft)
       (auto simp: sample_world_simps)
  have 4: "\<exists>w'. edit_and_write [''Runner.xcodeproj''] minimal_manifest escaped_ids sample_build_ids
               (sample_world (Some (Text minimal_manifest)) NoFault)
             = (Inl ReplacementError, w')
         \<and> disk w' = disk (sample_world (Some (Text minimal_manifest)) NoFault)
         \<and> filter is_write (events w')
            = filter is_write (events (sample_world (Some (Text minimal_manifest)) NoFault))"
    using manifest_written_once_after_editors[where content = minimal_manifest and build_ids = sample_build_ids
        and file_ids = escaped_ids and e = ReplacementError
        and project_path = "[''Runner.xcodeproj'']"
        and w = "sample_world (Some (Text minimal_manifest)) NoFault",
        THEN conjunct2, THEN conjunct2, THEN conjunct2, THEN conjunct1]
      escaped_ids_raise by blast
  show ?thesis
    using 1 2 3[of NoFault] 3[of OpenFails] 3[of "WriteFails 100"] 4 escaped_ids_raise
    by (simp add: sample_world_simps)
qed




end
